theory Spec2Isabelle
  imports Main "HOL-Library.Extended_Nat"
begin

section \<open>The BGM engine of Synthaura.js (class SynthauraBGM, v2.0)\<close>

text \<open>
  The embedding follows the v2.0 source (the file that defines \<^verbatim>\<open>makeCleanup\<close>,
  \<^verbatim>\<open>SECTIONS\<close> and the worker-driven \<^verbatim>\<open>_schedule\<close>). Of the older engine in
  \<^verbatim>\<open>synthaura.js\<close> only \<^verbatim>\<open>getFreq\<close> and its scales are embedded, as \<open>getFreq_legacy\<close>.

  Conventions.
  \<^item> JavaScript numbers that hold times, gains and the frequencies computed from them
    are exact rationals (\<open>rat\<close>): the rounding of the 53-bit significand of IEEE
    doubles is not modelled. The result of \<^verbatim>\<open>getFreq\<close> is a \<open>jsnum\<close>, which also has
    the bounded exponent range of a double (overflow to infinity, gradual underflow)
    and \<^verbatim>\<open>NaN\<close>.
  \<^item> \<^verbatim>\<open>tick\<close> and \<^verbatim>\<open>measure\<close> are counters that the engine only ever sets to 0 and
    increments; they are \<open>nat\<close>. \<^verbatim>\<open>Math.floor(this.measure)\<close> is the identity on them.
  \<^item> \<^verbatim>\<open>this.ctx.currentTime\<close> is read from the audio backend; every operation takes
    the value it reads as its first argument \<open>now\<close> (it does not change while one
    handler runs).
  \<^item> The audio backend is external. Each call the engine makes on it is recorded:
    the automation calls on \<^verbatim>\<open>_master.gain\<close> and \<^verbatim>\<open>_sidechainBus.gain\<close>, the messages
    posted to the timer worker, the voices built, the \<^verbatim>\<open>onBeat\<close> notifications, the
    nodes created, the \<^verbatim>\<open>onended\<close> handlers installed and the \<^verbatim>\<open>disconnect()\<close> calls.
    The envelope automation on a voice's own nodes and \<^verbatim>\<open>ctx.resume()\<close> are not recorded.
  \<^item> \<^verbatim>\<open>Math.random()\<close> reads the next element of a stream carried by the state.
\<close>

subsection \<open>JavaScript arithmetic\<close>

text \<open>The remainder operator \<^verbatim>\<open>%\<close> on integers: the sign follows the dividend.\<close>

definition js_rem :: "int \<Rightarrow> int \<Rightarrow> int" where
  "js_rem a b = sgn a * (\<bar>a\<bar> mod \<bar>b\<bar>)"

text \<open>
  A JavaScript number that may be infinite (\<open>Infty True\<close> is \<^verbatim>\<open>Infinity\<close>, \<open>Infty False\<close>
  is \<^verbatim>\<open>-Infinity\<close>) or \<^verbatim>\<open>NaN\<close>. The two zeros are not told apart.
\<close>

datatype jsnum = Num rat | Infty bool | NaN

text \<open>Rounding to the nearest integer, ties to the even one.\<close>

definition round_even :: "rat \<Rightarrow> int" where
  "round_even x =
     (let f = \<lfloor>x\<rfloor>; r = x - of_int f
      in if r < 1 / 2 then f else if 1 / 2 < r then f + 1 else if even f then f else f + 1)"

text \<open>
  The double that an operation with exact result \<open>x\<close> returns, as far as the exponent
  range goes: from \<open>2^1024 - 2^970\<close> on (half-way between the largest finite double and
  \<open>2^1024\<close>) the result is infinite; below the smallest normal double \<open>2^-1022\<close> it is a
  multiple of \<open>2^-1074\<close>, the nearest one, ties to even; in between it is taken to be \<open>x\<close>.
\<close>

definition js_range :: "rat \<Rightarrow> jsnum" where
  "js_range x =
     (if 2 ^ 1024 - 2 ^ 970 \<le> \<bar>x\<bar> then Infty (0 < x)
      else if \<bar>x\<bar> < 1 / 2 ^ 1022 then Num (of_int (round_even (x * 2 ^ 1074)) / 2 ^ 1074)
      else Num x)"

text \<open>The operator \<^verbatim>\<open>*\<close>.\<close>

fun js_mul :: "jsnum \<Rightarrow> jsnum \<Rightarrow> jsnum" where
  "js_mul (Num a) (Num b) = js_range (a * b)"
| "js_mul (Num a) (Infty p) = (if a = 0 then NaN else Infty (p = (0 < a)))"
| "js_mul (Infty p) (Num b) = (if b = 0 then NaN else Infty (p = (0 < b)))"
| "js_mul (Infty p) (Infty q) = Infty (p = q)"
| "js_mul NaN y = NaN"
| "js_mul x NaN = NaN"

text \<open>
  \<^verbatim>\<open>Math.pow(2, q)\<close> for an integer \<open>q\<close>: \<open>2^q\<close> is a double for \<open>-1074 \<le> q \<le> 1023\<close>; a
  smaller power rounds to 0 and a larger one overflows.
\<close>

definition Math_pow2 :: "int \<Rightarrow> jsnum" where
  "Math_pow2 q = (if 1024 \<le> q then Infty True else if q < - 1074 then Num 0 else Num (2 powi q))"

text \<open>
  Reading element \<open>k\<close> of an array of numbers as an operand of \<^verbatim>\<open>*\<close>: outside the array
  the read gives \<^verbatim>\<open>undefined\<close>, which the multiplication turns into \<^verbatim>\<open>NaN\<close>.
\<close>

definition array_read :: "rat list \<Rightarrow> int \<Rightarrow> jsnum" where
  "array_read xs k = (if 0 \<le> k \<and> k < int (length xs) then Num (xs ! nat k) else NaN)"

text \<open>
  Reading property \<open>key\<close> of an object literal with the own properties \<open>obj\<close>: a key that
  is not an own property may still be found on \<^verbatim>\<open>Object.prototype\<close>, where it names a
  function (or, for \<^verbatim>\<open>__proto__\<close>, the prototype object itself).
\<close>

datatype 'a property = Own 'a | Inherited | Absent

definition Object_prototype_keys :: "string list" where
  "Object_prototype_keys =
     [''constructor'', ''__defineGetter__'', ''__defineSetter__'', ''hasOwnProperty'',
      ''__lookupGetter__'', ''__lookupSetter__'', ''isPrototypeOf'', ''propertyIsEnumerable'',
      ''toString'', ''valueOf'', ''__proto__'', ''toLocaleString'']"

definition get_property :: "(string \<rightharpoonup> 'a) \<Rightarrow> string \<Rightarrow> 'a property" where
  "get_property obj key =
     (case obj key of
        Some v \<Rightarrow> Own v
      | None \<Rightarrow> if key \<in> set Object_prototype_keys then Inherited else Absent)"

subsection \<open>Section map\<close>

text \<open>
  \<^verbatim>\<open>const SECTIONS = { INTRO: { start: 0, end: 8 }, ..., OUTRO: { start: 48, end: Infinity } }\<close>.
  The bound \<^verbatim>\<open>Infinity\<close> is \<open>\<infinity>\<close> of \<open>enat\<close>.
\<close>

record bar_range =
  sec_start :: nat
  sec_end :: enat

definition INTRO :: bar_range where
  "INTRO = \<lparr>sec_start = 0, sec_end = enat 8\<rparr>"

definition VERSE :: bar_range where
  "VERSE = \<lparr>sec_start = 8, sec_end = enat 16\<rparr>"

definition CHORUS :: bar_range where
  "CHORUS = \<lparr>sec_start = 16, sec_end = enat 32\<rparr>"

definition BREAKDOWN :: bar_range where
  "BREAKDOWN = \<lparr>sec_start = 32, sec_end = enat 40\<rparr>"

definition BUILD :: bar_range where
  "BUILD = \<lparr>sec_start = 40, sec_end = enat 48\<rparr>"

definition OUTRO :: bar_range where
  "OUTRO = \<lparr>sec_start = 48, sec_end = \<infinity>\<rparr>"

definition SECTIONS :: "(string \<times> bar_range) list" where
  "SECTIONS = [(''INTRO'', INTRO), (''VERSE'', VERSE), (''CHORUS'', CHORUS),
               (''BREAKDOWN'', BREAKDOWN), (''BUILD'', BUILD), (''OUTRO'', OUTRO)]"

text \<open>The test the source writes inline: \<^verbatim>\<open>bar >= S.start && bar < S.end\<close>.\<close>

definition in_section :: "bar_range \<Rightarrow> nat \<Rightarrow> bool" where
  "in_section S bar = (sec_start S \<le> bar \<and> enat bar < sec_end S)"

subsection \<open>Engine state\<close>

text \<open>Calls on an \<^verbatim>\<open>AudioParam\<close>, with the arguments in the order of the Web Audio API.\<close>

datatype param_call =
    CancelScheduledValues rat
  | SetValueAtTime rat rat
  | LinearRampToValueAtTime rat rat
  | ExponentialRampToValueAtTime rat rat
  | SetTargetAtTime rat rat rat

text \<open>
  A voice, recorded with the arguments its builder was called with. The frequency of a
  bass or lead voice is the result of \<^verbatim>\<open>getFreq\<close>.
\<close>

datatype voice =
    Kick rat
  | Snare rat
  | Hihat rat bool
  | SuperSawBass jsnum rat rat rat
  | FMLead jsnum rat rat rat
  | Synth rat rat rat string

text \<open>The closure returned by \<^verbatim>\<open>makeCleanup(...nodes)\<close>: its flag and the captured nodes.\<close>

record cleanup =
  cl_done :: bool
  cl_nodes :: "nat list"

record engine =
  bpm :: rat
  noteLength :: rat
  isPlaying :: bool
  nextNoteTime :: rat
  tick :: nat
  measure :: nat
  currentTrack :: string
  master_gain :: "param_call list"
  sidechain_gain :: "param_call list"
  worker_msgs :: "string list"
  pending :: "string list"
  voices :: "voice list"
  beats :: "(rat \<times> string) list"
  node_count :: nat
  cleanups :: "cleanup list"
  onended :: "nat \<rightharpoonup> nat"
  disconnects :: "nat list"
  rnd :: "nat \<Rightarrow> rat"
  rnd_i :: nat

text \<open>
  The constructor. It creates the five long-lived nodes (compressor, master, reverb,
  reverbGain, sidechainBus: node ids 0 to 4) and the timer worker.
\<close>

definition new_engine :: "(nat \<Rightarrow> rat) \<Rightarrow> engine" where
  "new_engine r =
     \<lparr>bpm = 128, noteLength = 60 / 128 / 4, isPlaying = False, nextNoteTime = 0,
      tick = 0, measure = 0, currentTrack = ''ambient'',
      master_gain = [], sidechain_gain = [], worker_msgs = [], pending = [],
      voices = [], beats = [], node_count = 5, cleanups = [], onended = Map.empty,
      disconnects = [], rnd = r, rnd_i = 0\<rparr>"

text \<open>
  The own properties of \<^verbatim>\<open>this.scales\<close>, an object literal set once by the constructor.
\<close>

definition scales :: "string \<rightharpoonup> rat list" where
  "scales = [''mainTheme'' \<mapsto> [130.81, 146.83, 155.56, 174.61, 196.00, 207.65, 233.08],
             ''ambient'' \<mapsto> [233.08, 207.65, 174.61, 155.56]]"

text \<open>\<^verbatim>\<open>Math.random()\<close>: a number in \<open>[0, 1)\<close>, the next of the stream.\<close>

definition Math_random :: "engine \<Rightarrow> rat \<times> engine" where
  "Math_random s = (frac (rnd s (rnd_i s)), s\<lparr>rnd_i := Suc (rnd_i s)\<rparr>)"

subsection \<open>Scale lookup\<close>

text \<open>
  \<^verbatim>\<open>getFreq(scaleName, index) {
      const scale = this.scales[scaleName];
      if (!scale) return 440;
      const len = scale.length;
      return scale[((index % len) + len) % len] * Math.pow(2, Math.floor(index / len));
  }\<close>
  \<open>index\<close> is an integer. A name that \<^verbatim>\<open>this.scales\<close> inherits is truthy and has no
  numeric elements, so every read \<^verbatim>\<open>scale[...]\<close> is \<^verbatim>\<open>undefined\<close> and the product \<^verbatim>\<open>NaN\<close>.
\<close>

definition getFreq :: "string \<Rightarrow> int \<Rightarrow> jsnum" where
  "getFreq scaleName index =
     (case get_property scales scaleName of
        Absent \<Rightarrow> Num 440
      | Inherited \<Rightarrow> NaN
      | Own scale \<Rightarrow>
          (let len = int (length scale)
           in js_mul (array_read scale (js_rem (js_rem index len + len) len))
                     (Math_pow2 \<lfloor>rat_of_int index / rat_of_int len\<rfloor>)))"



subsection \<open>Voice teardown\<close>

text \<open>
  \<^verbatim>\<open>function makeCleanup(...nodes) {
      let done = false;
      return () => {
          if (done) return;
          done = true;
          for (const node of nodes) { try { node.disconnect(); } catch (_) {} }
      };
  }\<close>
  A closure lives in the store \<open>cleanups\<close>; \<open>makeCleanup\<close> returns its index, so that
  two handlers can hold the same closure.
\<close>

definition makeCleanup :: "nat list \<Rightarrow> engine \<Rightarrow> nat \<times> engine" where
  "makeCleanup ns s =
     (length (cleanups s), s\<lparr>cleanups := cleanups s @ [\<lparr>cl_done = False, cl_nodes = ns\<rparr>]\<rparr>)"

text \<open>Calling the closure with index \<open>c\<close>.\<close>

definition call_cleanup :: "nat \<Rightarrow> engine \<Rightarrow> engine" where
  "call_cleanup c s =
     (if c < length (cleanups s) then
        (let cl = cleanups s ! c
         in if cl_done cl then s
            else s\<lparr>cleanups := (cleanups s)[c := cl\<lparr>cl_done := True\<rparr>],
                   disconnects := disconnects s @ cl_nodes cl\<rparr>)
      else s)"

text \<open>The backend fires the \<^verbatim>\<open>ended\<close> event of node \<open>n\<close>: its handler, if any, runs.\<close>

definition fire_onended :: "nat \<Rightarrow> engine \<Rightarrow> engine" where
  "fire_onended n s = (case onended s n of None \<Rightarrow> s | Some c \<Rightarrow> call_cleanup c s)"

subsection \<open>Voice builders\<close>

text \<open>
  Each builder creates its nodes (fresh ids from \<open>node_count\<close>, in the order of the
  source), records the voice, and installs \<^verbatim>\<open>onended = makeCleanup(...)\<close>.
\<close>

definition playKick :: "rat \<Rightarrow> engine \<Rightarrow> engine" where
  "playKick time s =
     (let osc = node_count s; gain = node_count s + 1;
          s1 = s\<lparr>node_count := node_count s + 2,
                 voices := voices s @ [Kick time],
                 sidechain_gain := sidechain_gain s @
                   [CancelScheduledValues time,
                    SetValueAtTime 0.3 time,
                    ExponentialRampToValueAtTime 1.0 (time + 0.15)],
                 beats := beats s @ [(time, ''kick'')]\<rparr>;
          (c, s2) = makeCleanup [osc, gain] s1
      in s2\<lparr>onended := (onended s2)(osc \<mapsto> c)\<rparr>)"

definition playSnare :: "rat \<Rightarrow> engine \<Rightarrow> engine" where
  "playSnare time s =
     (let src = node_count s; filter = node_count s + 1; gain = node_count s + 2;
          s1 = s\<lparr>node_count := node_count s + 3,
                 voices := voices s @ [Snare time],
                 beats := beats s @ [(time, ''snare'')]\<rparr>;
          (c, s2) = makeCleanup [src, filter, gain] s1
      in s2\<lparr>onended := (onended s2)(src \<mapsto> c)\<rparr>)"

definition playHihat :: "rat \<Rightarrow> bool \<Rightarrow> engine \<Rightarrow> engine" where
  "playHihat time is_open s =
     (let src = node_count s; filter = node_count s + 1; gain = node_count s + 2;
          s1 = s\<lparr>node_count := node_count s + 3,
                 voices := voices s @ [Hihat time is_open]\<rparr>;
          (c, s2) = makeCleanup [src, filter, gain] s1
      in s2\<lparr>onended := (onended s2)(src \<mapsto> c)\<rparr>)"

text \<open>
  \<^verbatim>\<open>const cleanup = makeCleanup(osc1, osc2, filter, gain);
  osc1.onended = cleanup; osc2.onended = cleanup;\<close>
\<close>

definition playSuperSawBass :: "jsnum \<Rightarrow> rat \<Rightarrow> rat \<Rightarrow> rat \<Rightarrow> engine \<Rightarrow> engine" where
  "playSuperSawBass freq time dur cutoff s =
     (let osc1 = node_count s; osc2 = node_count s + 1;
          filter = node_count s + 2; gain = node_count s + 3;
          s1 = s\<lparr>node_count := node_count s + 4,
                 voices := voices s @ [SuperSawBass freq time dur cutoff],
                 beats := beats s @ [(time, ''bass'')]\<rparr>;
          (c, s2) = makeCleanup [osc1, osc2, filter, gain] s1
      in s2\<lparr>onended := (onended s2)(osc1 \<mapsto> c, osc2 \<mapsto> c)\<rparr>)"

text \<open>\<^verbatim>\<open>_playFMLead(freq, time, dur, vol = 0.15)\<close>: \<open>None\<close> is the omitted argument.\<close>

definition playFMLead :: "jsnum \<Rightarrow> rat \<Rightarrow> rat \<Rightarrow> rat option \<Rightarrow> engine \<Rightarrow> engine" where
  "playFMLead freq time dur vol_arg s =
     (let vol = (case vol_arg of None \<Rightarrow> 0.15 | Some v \<Rightarrow> v);
          carrier = node_count s; modulator = node_count s + 1;
          modGain = node_count s + 2; gain = node_count s + 3;
          delay = node_count s + 4; dGain = node_count s + 5;
          s1 = s\<lparr>node_count := node_count s + 6,
                 voices := voices s @ [FMLead freq time dur vol],
                 beats := beats s @ [(time, ''lead'')]\<rparr>;
          (c, s2) = makeCleanup [carrier, modulator, modGain, gain, delay, dGain] s1
      in s2\<lparr>onended := (onended s2)(carrier \<mapsto> c)\<rparr>)"

definition playSynth :: "rat \<Rightarrow> rat \<Rightarrow> rat \<Rightarrow> string \<Rightarrow> engine \<Rightarrow> engine" where
  "playSynth freq time dur type s =
     (let osc = node_count s; gain = node_count s + 1;
          s1 = s\<lparr>node_count := node_count s + 2,
                 voices := voices s @ [Synth freq time dur type]\<rparr>;
          (c, s2) = makeCleanup [osc, gain] s1
      in s2\<lparr>onended := (onended s2)(osc \<mapsto> c)\<rparr>)"

subsection \<open>Pattern generator\<close>

definition playAmbientPattern :: "rat \<Rightarrow> nat \<Rightarrow> nat \<Rightarrow> engine \<Rightarrow> engine" where
  "playAmbientPattern time tk bar s =
     (let root = the (scales ''ambient'') ! (bar mod 4);
          s1 = (if tk = 0 \<and> bar mod 2 = 0
                then playSynth (root * 1.5) time (noteLength s * 32) ''sine''
                       (playSynth (root * 2) time (noteLength s * 32) ''triangle'' s)
                else s);
          s2 = (if tk mod 4 = 0 then playSynth (root / 2) time (noteLength s1 * 3) ''sine'' s1
                else s1);
          (r, s3) = Math_random s2
      in if r > 0.85
         then (let (r', s4) = Math_random s3;
                   freq = root * ([1, 1.25, 1.5, 1.75] ! nat \<lfloor>r' * 4\<rfloor>) * 2
               in playSynth freq time 0.3 ''sine'' s4)
         else s3)"

definition playDrums :: "rat \<Rightarrow> nat \<Rightarrow> nat \<Rightarrow> engine \<Rightarrow> engine" where
  "playDrums time tk bar s =
     (if bar < sec_start VERSE then s
      else
        (let isBreakdown = in_section BREAKDOWN bar;
             isBuild = in_section BUILD bar;
             s1 = (if \<not> isBreakdown \<and> tk mod 4 = 0 then playKick time s else s);
             s2 = (if isBuild then (if tk mod 2 = 0 then playSnare time s1 else s1)
                   else if \<not> isBreakdown then (if tk mod 8 = 4 then playSnare time s1 else s1)
                   else s1)
         in if \<not> isBreakdown \<and> tk mod 2 = 0 then playHihat time (tk mod 8 = 2) s2 else s2))"

definition playBass :: "rat \<Rightarrow> nat \<Rightarrow> nat \<Rightarrow> engine \<Rightarrow> engine" where
  "playBass time tk bar s =
     (let rootIdx = [0, 5, 3, 4] ! (bar mod 4);
          cutoff = 300;
          cutoff = (if in_section CHORUS bar then 800 else cutoff);
          cutoff = (if in_section BREAKDOWN bar then 100 else cutoff);
          cutoff = (if sec_start OUTRO \<le> bar then 1500 else cutoff)
      in if tk mod 4 \<noteq> 0
         then playSuperSawBass (getFreq ''mainTheme'' rootIdx) time (noteLength s) cutoff s
         else s)"

text \<open>
  The fixed melody; \<open>-1\<close> is the silence marker. \<open>melody ! tk\<close> is read for \<open>tk < 16\<close>
  only, which the scheduler maintains.
\<close>

definition melody :: "int list" where
  "melody = [7, -1, 7, 8, 7, 4, 2, 0, -1, 2, 4, 2, 0, -1, -1, -1]"

definition playLead :: "rat \<Rightarrow> nat \<Rightarrow> nat \<Rightarrow> engine \<Rightarrow> engine" where
  "playLead time tk bar s =
     (if in_section CHORUS bar \<or> sec_start OUTRO \<le> bar then
        (let noteVal = melody ! tk
         in if noteVal \<noteq> -1
            then (let freq = getFreq ''mainTheme''
                               (noteVal + (if sec_start OUTRO \<le> bar then 7 else 0))
                  in playFMLead freq time (noteLength s * 2) None s)
            else s)
      else if in_section BREAKDOWN bar \<and> tk mod 4 = 0 then
        (let (r, s1) = Math_random s;
             freq = getFreq ''mainTheme'' ([0, 2, 4, 7] ! nat \<lfloor>r * 4\<rfloor> + 7);
             (r', s2) = Math_random s1
         in playFMLead freq (time + r' * 0.05) 0.5 (Some 0.1) s2)
      else s)"

definition playMainThemePattern :: "rat \<Rightarrow> nat \<Rightarrow> nat \<Rightarrow> engine \<Rightarrow> engine" where
  "playMainThemePattern time tk bar s =
     playLead time tk bar (playBass time tk bar (playDrums time tk bar s))"

subsection \<open>Lookahead scheduler\<close>

definition lookahead :: rat where
  "lookahead = 0.1"

text \<open>\<^verbatim>\<open>if (++this.tick >= 16) { this.tick = 0; this.measure++; }\<close>\<close>

definition advance :: "engine \<Rightarrow> engine" where
  "advance s =
     (let s1 = s\<lparr>tick := tick s + 1\<rparr>
      in if tick s1 \<ge> 16 then s1\<lparr>tick := 0, measure := measure s1 + 1\<rparr> else s1)"

text \<open>One iteration of the \<^verbatim>\<open>while\<close> loop of \<^verbatim>\<open>_schedule\<close>.\<close>

definition schedule_body :: "engine \<Rightarrow> engine" where
  "schedule_body s =
     (let bar = measure s;
          s1 = (if currentTrack s = ''mainTheme''
                then playMainThemePattern (nextNoteTime s) (tick s) bar s
                else playAmbientPattern (nextNoteTime s) (tick s) bar s);
          s2 = s1\<lparr>nextNoteTime := nextNoteTime s1 + noteLength s1\<rparr>
      in advance s2)"

text \<open>
  \<^verbatim>\<open>_schedule() {
      const lookahead = 0.1;
      while (this.nextNoteTime < this.ctx.currentTime + lookahead) { ... }
  }\<close>
  The loop does not return when \<open>noteLength \<le> 0\<close>: the result is an option.
\<close>

partial_function (option) schedule :: "rat \<Rightarrow> engine \<Rightarrow> engine option" where
  "schedule now s =
     (if nextNoteTime s < now + lookahead then schedule now (schedule_body s) else Some s)"

subsection \<open>Transport controller\<close>

definition start :: "rat \<Rightarrow> engine \<Rightarrow> engine" where
  "start now s =
     (if isPlaying s then s
      else
        (let targetVol = (if currentTrack s = ''mainTheme'' then 0.2 else 0.15)
         in s\<lparr>isPlaying := True,
               nextNoteTime := now + 0.1,
               master_gain := master_gain s @
                 [CancelScheduledValues now, SetValueAtTime 0 now,
                  SetTargetAtTime targetVol now 0.3],
               worker_msgs := worker_msgs s @ [''start'']\<rparr>))"

definition stop :: "rat \<Rightarrow> engine \<Rightarrow> engine" where
  "stop now s =
     (if \<not> isPlaying s then s
      else s\<lparr>isPlaying := False,
             worker_msgs := worker_msgs s @ [''stop''],
             master_gain := master_gain s @
               [CancelScheduledValues now, SetTargetAtTime 0 now 0.1]\<rparr>)"

definition FADE :: rat where
  "FADE = 0.15"

text \<open>
  \<open>switchTrack\<close> fades out and registers a timeout (\<^verbatim>\<open>setTimeout(..., FADE * 1000)\<close>);
  the registered callbacks are \<open>pending\<close>, each with the track name it captured.
  \<open>switchTrack_timeout\<close> is the callback.
\<close>

definition switchTrack :: "rat \<Rightarrow> string \<Rightarrow> engine \<Rightarrow> engine" where
  "switchTrack now trackName s =
     (if currentTrack s = trackName then s
      else s\<lparr>master_gain := master_gain s @
               [CancelScheduledValues now, SetTargetAtTime 0 now (FADE / 3)],
             pending := pending s @ [trackName]\<rparr>)"

definition switchTrack_timeout :: "rat \<Rightarrow> string \<Rightarrow> engine \<Rightarrow> engine" where
  "switchTrack_timeout now trackName s =
     (let b = (if trackName = ''mainTheme'' then 135 else 90);
          targetVol = (if trackName = ''mainTheme'' then 0.2 else 0.15)
      in s\<lparr>currentTrack := trackName, tick := 0, measure := 0,
            bpm := b, noteLength := 60 / b / 4,
            nextNoteTime := now + 0.05,
            master_gain := master_gain s @
              [CancelScheduledValues now, SetTargetAtTime targetVol now 0.3]\<rparr>)"

subsection \<open>Timer worker\<close>

text \<open>
  The script of the worker that \<^verbatim>\<open>_initWorker\<close> creates:
  \<^verbatim>\<open>let id = null;
  self.onmessage = e => {
      if (e.data === 'start')      { id = setInterval(() => postMessage('tick'), 25); }
      else if (e.data === 'stop')  { clearInterval(id); id = null; }
  };\<close>
  \<open>w_active\<close> are the intervals that are running (each posts a \<^verbatim>\<open>'tick'\<close> every 25 ms),
  \<open>w_next\<close> the handle the next \<^verbatim>\<open>setInterval\<close> returns; \<^verbatim>\<open>clearInterval(null)\<close> does
  nothing. The worker runs on its own thread: it handles the messages in the order
  they were posted, some time after they were posted.
\<close>

record worker =
  w_id :: "nat option"
  w_active :: "nat list"
  w_next :: nat

definition new_worker :: worker where
  "new_worker = \<lparr>w_id = None, w_active = [], w_next = 0\<rparr>"

definition worker_onmessage :: "worker \<Rightarrow> string \<Rightarrow> worker" where
  "worker_onmessage w d =
     (if d = ''start''
      then w\<lparr>w_id := Some (w_next w), w_active := w_active w @ [w_next w],
             w_next := Suc (w_next w)\<rparr>
      else if d = ''stop''
      then w\<lparr>w_id := None,
             w_active := (case w_id w of None \<Rightarrow> w_active w
                          | Some i \<Rightarrow> removeAll i (w_active w))\<rparr>
      else w)"

text \<open>The worker once it has handled the messages \<open>msgs\<close>.\<close>

definition worker_after :: "string list \<Rightarrow> worker" where
  "worker_after msgs = foldl worker_onmessage new_worker msgs"

text \<open>
  The worker, once it has handled every message the engine has posted, runs exactly
  one interval if the engine is playing and none if it is stopped.
\<close>

definition timer_in_sync :: "engine \<Rightarrow> bool" where
  "timer_in_sync s =
     (let w = worker_after (worker_msgs s)
      in if isPlaying s
         then (case w_id w of None \<Rightarrow> False | Some i \<Rightarrow> w_active w = [i])
         else w_id w = None \<and> w_active w = [])"

subsection \<open>Runs of the engine\<close>

text \<open>
  What can happen to an engine, each with the clock value read by the handler:
  a \<^verbatim>\<open>'tick'\<close> message of the worker is delivered (\<^verbatim>\<open>_worker.onmessage\<close> calls
  \<^verbatim>\<open>_schedule\<close>), a public operation is called, or the oldest pending timeout fires.
\<close>

datatype event =
    Pulse rat
  | Start rat
  | Stop rat
  | SwitchTrack rat string
  | Timeout rat

fun step :: "event \<Rightarrow> engine \<Rightarrow> engine option" where
  "step (Pulse now) s = schedule now s"
| "step (Start now) s = Some (start now s)"
| "step (Stop now) s = Some (stop now s)"
| "step (SwitchTrack now name) s = Some (switchTrack now name s)"
| "step (Timeout now) s =
     (case pending s of
        [] \<Rightarrow> Some s
      | name # rest \<Rightarrow> Some (switchTrack_timeout now name (s\<lparr>pending := rest\<rparr>)))"

fun run :: "event list \<Rightarrow> engine \<Rightarrow> engine option" where
  "run [] s = Some s"
| "run (e # es) s = (case step e s of None \<Rightarrow> None | Some s' \<Rightarrow> run es s')"

text \<open>The voices an operation added: those of \<open>s'\<close> after the ones \<open>s\<close> already had.\<close>

definition new_voices :: "engine \<Rightarrow> engine \<Rightarrow> voice list" where
  "new_voices s s' = drop (length (voices s)) (voices s')"



subsection \<open>Observations on voices\<close>

fun is_kick :: "voice \<Rightarrow> bool" where
  "is_kick (Kick t) = True"
| "is_kick _ = False"

fun is_lead :: "voice \<Rightarrow> bool" where
  "is_lead (FMLead f t d v) = True"
| "is_lead _ = False"


text \<open>A random stream for concrete runs: \<^verbatim>\<open>Math.random()\<close> always returns 0.\<close>

definition zero_stream :: "nat \<Rightarrow> rat" where
  "zero_stream n = 0"

subsection \<open>Automation timeline of an AudioParam\<close>

text \<open>
  The backend keeps, for each \<^verbatim>\<open>AudioParam\<close>, the events scheduled on it. The Web Audio
  API fixes what the calls do to that list: \<^verbatim>\<open>cancelScheduledValues(t)\<close> removes every
  scheduled event whose time is greater than or equal to \<open>t\<close>; every other call adds
  one event, at the time it names (the end time of a ramp, the start time of a
  set-target). The list is kept here in the order of the calls.
\<close>

fun call_time :: "param_call \<Rightarrow> rat" where
  "call_time (CancelScheduledValues t) = t"
| "call_time (SetValueAtTime v t) = t"
| "call_time (LinearRampToValueAtTime v t) = t"
| "call_time (ExponentialRampToValueAtTime v t) = t"
| "call_time (SetTargetAtTime v t c) = t"

fun is_ramp :: "param_call \<Rightarrow> bool" where
  "is_ramp (LinearRampToValueAtTime v t) = True"
| "is_ramp (ExponentialRampToValueAtTime v t) = True"
| "is_ramp _ = False"

fun apply_call :: "param_call list \<Rightarrow> param_call \<Rightarrow> param_call list" where
  "apply_call evs (CancelScheduledValues t) = filter (\<lambda>e. call_time e < t) evs"
| "apply_call evs (SetValueAtTime v t) = evs @ [SetValueAtTime v t]"
| "apply_call evs (LinearRampToValueAtTime v t) = evs @ [LinearRampToValueAtTime v t]"
| "apply_call evs (ExponentialRampToValueAtTime v t) = evs @ [ExponentialRampToValueAtTime v t]"
| "apply_call evs (SetTargetAtTime v t c) = evs @ [SetTargetAtTime v t c]"

definition timeline :: "param_call list \<Rightarrow> param_call list" where
  "timeline calls = foldl apply_call [] calls"

section \<open>Properties\<close>

subsection \<open>Effects of the voice builders\<close>

lemma playKick_frame [simp]:
  "bpm (playKick t s) = bpm s" "noteLength (playKick t s) = noteLength s"
  "isPlaying (playKick t s) = isPlaying s" "nextNoteTime (playKick t s) = nextNoteTime s"
  "tick (playKick t s) = tick s" "measure (playKick t s) = measure s"
  "currentTrack (playKick t s) = currentTrack s"
  "rnd (playKick t s) = rnd s" "rnd_i (playKick t s) = rnd_i s"
  "voices (playKick t s) = voices s @ [Kick t]"
  by (simp_all add: playKick_def makeCleanup_def Let_def)

lemma playSnare_frame [simp]:
  "bpm (playSnare t s) = bpm s" "noteLength (playSnare t s) = noteLength s"
  "isPlaying (playSnare t s) = isPlaying s" "nextNoteTime (playSnare t s) = nextNoteTime s"
  "tick (playSnare t s) = tick s" "measure (playSnare t s) = measure s"
  "currentTrack (playSnare t s) = currentTrack s"
  "rnd (playSnare t s) = rnd s" "rnd_i (playSnare t s) = rnd_i s"
  "voices (playSnare t s) = voices s @ [Snare t]"
  by (simp_all add: playSnare_def makeCleanup_def Let_def)

lemma playHihat_frame [simp]:
  "bpm (playHihat t b s) = bpm s" "noteLength (playHihat t b s) = noteLength s"
  "isPlaying (playHihat t b s) = isPlaying s" "nextNoteTime (playHihat t b s) = nextNoteTime s"
  "tick (playHihat t b s) = tick s" "measure (playHihat t b s) = measure s"
  "currentTrack (playHihat t b s) = currentTrack s"
  "rnd (playHihat t b s) = rnd s" "rnd_i (playHihat t b s) = rnd_i s"
  "voices (playHihat t b s) = voices s @ [Hihat t b]"
  by (simp_all add: playHihat_def makeCleanup_def Let_def)

lemma playSuperSawBass_frame [simp]:
  "bpm (playSuperSawBass f t d c s) = bpm s"
  "noteLength (playSuperSawBass f t d c s) = noteLength s"
  "isPlaying (playSuperSawBass f t d c s) = isPlaying s"
  "nextNoteTime (playSuperSawBass f t d c s) = nextNoteTime s"
  "tick (playSuperSawBass f t d c s) = tick s" "measure (playSuperSawBass f t d c s) = measure s"
  "currentTrack (playSuperSawBass f t d c s) = currentTrack s"
  "rnd (playSuperSawBass f t d c s) = rnd s" "rnd_i (playSuperSawBass f t d c s) = rnd_i s"
  "voices (playSuperSawBass f t d c s) = voices s @ [SuperSawBass f t d c]"
  by (simp_all add: playSuperSawBass_def makeCleanup_def Let_def)

lemma playFMLead_frame [simp]:
  "bpm (playFMLead f t d vo s) = bpm s" "noteLength (playFMLead f t d vo s) = noteLength s"
  "isPlaying (playFMLead f t d vo s) = isPlaying s"
  "nextNoteTime (playFMLead f t d vo s) = nextNoteTime s"
  "tick (playFMLead f t d vo s) = tick s" "measure (playFMLead f t d vo s) = measure s"
  "currentTrack (playFMLead f t d vo s) = currentTrack s"
  "rnd (playFMLead f t d vo s) = rnd s" "rnd_i (playFMLead f t d vo s) = rnd_i s"
  "voices (playFMLead f t d vo s) =
     voices s @ [FMLead f t d (case vo of None \<Rightarrow> 0.15 | Some v \<Rightarrow> v)]"
  by (simp_all add: playFMLead_def makeCleanup_def Let_def)

lemma playSynth_frame [simp]:
  "bpm (playSynth f t d ty s) = bpm s" "noteLength (playSynth f t d ty s) = noteLength s"
  "isPlaying (playSynth f t d ty s) = isPlaying s"
  "nextNoteTime (playSynth f t d ty s) = nextNoteTime s"
  "tick (playSynth f t d ty s) = tick s" "measure (playSynth f t d ty s) = measure s"
  "currentTrack (playSynth f t d ty s) = currentTrack s"
  "rnd (playSynth f t d ty s) = rnd s" "rnd_i (playSynth f t d ty s) = rnd_i s"
  "voices (playSynth f t d ty s) = voices s @ [Synth f t d ty]"
  by (simp_all add: playSynth_def makeCleanup_def Let_def)

lemma Math_random_frame [simp]:
  "bpm (snd (Math_random s)) = bpm s" "noteLength (snd (Math_random s)) = noteLength s"
  "isPlaying (snd (Math_random s)) = isPlaying s"
  "nextNoteTime (snd (Math_random s)) = nextNoteTime s"
  "tick (snd (Math_random s)) = tick s" "measure (snd (Math_random s)) = measure s"
  "currentTrack (snd (Math_random s)) = currentTrack s"
  "rnd (snd (Math_random s)) = rnd s" "rnd_i (snd (Math_random s)) = Suc (rnd_i s)"
  "voices (snd (Math_random s)) = voices s"
  by (simp_all add: Math_random_def)

lemma Math_random_fst: "fst (Math_random s) = frac (rnd s (rnd_i s))"
  by (simp add: Math_random_def)

subsection \<open>Voices of the main-theme parts\<close>

lemma voices_playDrums:
  "voices (playDrums time tk bar s) = voices s @
     (if sec_start VERSE \<le> bar \<and> \<not> in_section BREAKDOWN bar \<and> tk mod 4 = 0
      then [Kick time] else []) @
     (if sec_start VERSE \<le> bar \<and>
         (if in_section BUILD bar then tk mod 2 = 0
          else \<not> in_section BREAKDOWN bar \<and> tk mod 8 = 4)
      then [Snare time] else []) @
     (if sec_start VERSE \<le> bar \<and> \<not> in_section BREAKDOWN bar \<and> tk mod 2 = 0
      then [Hihat time (tk mod 8 = 2)] else [])"
  by (simp add: playDrums_def Let_def)

lemma voices_playBass:
  "\<exists>vs. voices (playBass time tk bar s) = voices s @ vs \<and>
        (\<forall>v\<in>set vs. \<not> is_kick v \<and> \<not> is_lead v)"
  by (simp add: playBass_def Let_def)

lemma voices_playLead:
  "voices (playLead time tk bar s) = voices s @
    (if in_section CHORUS bar \<or> sec_start OUTRO \<le> bar then
       (if melody ! tk \<noteq> -1
        then [FMLead (getFreq ''mainTheme''
                        (melody ! tk + (if sec_start OUTRO \<le> bar then 7 else 0)))
                 time (noteLength s * 2) 0.15]
        else [])
     else if in_section BREAKDOWN bar \<and> tk mod 4 = 0 then
       [FMLead (getFreq ''mainTheme''
                  ([0, 2, 4, 7] ! nat \<lfloor>frac (rnd s (rnd_i s)) * 4\<rfloor> + 7))
          (time + frac (rnd s (Suc (rnd_i s))) * 0.05) 0.5 0.1]
     else [])"
  by (simp add: playLead_def Let_def case_prod_beta Math_random_fst)

lemma parts_noteLength [simp]:
  "noteLength (playDrums time tk bar s) = noteLength s"
  "noteLength (playBass time tk bar s) = noteLength s"
  "noteLength (playLead time tk bar s) = noteLength s"
  by (simp_all add: playDrums_def playBass_def playLead_def Let_def case_prod_beta)

subsection \<open>Section map\<close>

text \<open>
  Claim C3. For every bar index \<open>b \<ge> 0\<close> (a natural number), exactly one of the six
  sections INTRO, VERSE, CHORUS, BREAKDOWN, BUILD, OUTRO contains \<open>b\<close> in its
  half-open range \<open>[start, end)\<close>: among the six entries of \<open>SECTIONS\<close>, whose names
  are distinct, the ones whose range contains \<open>b\<close> are exactly one. Membership is the
  function \<open>in_section\<close> of the section and \<open>b\<close> alone.
\<close>

theorem sections_partition:
  "length (filter (\<lambda>p. in_section (snd p) b) SECTIONS) = 1 \<and>
   map fst SECTIONS = [''INTRO'', ''VERSE'', ''CHORUS'', ''BREAKDOWN'', ''BUILD'', ''OUTRO''] \<and>
   distinct (map fst SECTIONS)"
  by (simp add: SECTIONS_def in_section_def INTRO_def VERSE_def CHORUS_def BREAKDOWN_def
        BUILD_def OUTRO_def)

theorem sections_partition_witness:
  "filter (\<lambda>p. in_section (snd p) 20) SECTIONS = [(''CHORUS'', CHORUS)] \<and>
   length (filter (\<lambda>p. in_section (snd p) 20) SECTIONS) = 1"
  using sections_partition [of 20]
  by (simp add: SECTIONS_def in_section_def INTRO_def VERSE_def CHORUS_def BREAKDOWN_def
        BUILD_def OUTRO_def)

subsection \<open>Kick pattern of the main theme\<close>

text \<open>
  Claim C5, as stated: on the main-theme track a kick is emitted at tick \<open>t\<close> of bar
  \<open>b\<close> if and only if \<open>t mod 4 = 0\<close> and \<open>b\<close> is not in BREAKDOWN. It fails at tick 0 of
  bar 0: \<^verbatim>\<open>_playDrums\<close> returns at once while \<^verbatim>\<open>bar < SECTIONS.VERSE.start\<close>, so the
  INTRO has no drums.
\<close>

theorem kick_intro_counterexample:
  "(filter is_kick (new_voices (new_engine zero_stream)
       (playMainThemePattern 0 0 0 (new_engine zero_stream))) \<noteq> [])
   \<noteq> ((0::nat) mod 4 = 0 \<and> \<not> in_section BREAKDOWN 0)"
proof -
  have "voices (playBass 0 0 0 (playDrums 0 0 0 (new_engine zero_stream))) =
        voices (new_engine zero_stream)"
    by (simp add: playBass_def playDrums_def VERSE_def Let_def)
  then have "new_voices (new_engine zero_stream)
       (playMainThemePattern 0 0 0 (new_engine zero_stream)) = []"
    by (simp add: playMainThemePattern_def new_voices_def voices_playLead in_section_def
          CHORUS_def OUTRO_def BREAKDOWN_def)
  then show ?thesis
    by (simp add: in_section_def BREAKDOWN_def)
qed

text \<open>
  Claim C5, amended: on the main-theme track, for every bar \<open>b\<close> and every tick \<open>t\<close>, the
  kicks emitted at \<open>(t, b)\<close> are one kick at the scheduled time if \<open>t mod 4 = 0\<close>, \<open>b\<close> is
  at or after the start of VERSE (bar 8) and \<open>b\<close> is not in BREAKDOWN, and none otherwise.
\<close>

theorem kick_pattern:
  "filter is_kick (new_voices s (playMainThemePattern time tk bar s)) =
     (if tk mod 4 = 0 \<and> sec_start VERSE \<le> bar \<and> \<not> in_section BREAKDOWN bar
      then [Kick time] else [])"
proof -
  obtain vs where vs: "voices (playBass time tk bar (playDrums time tk bar s)) =
       voices (playDrums time tk bar s) @ vs" "\<forall>v\<in>set vs. \<not> is_kick v \<and> \<not> is_lead v"
    using voices_playBass by blast
  have "filter is_kick vs = []"
    using vs(2) by (simp add: filter_empty_conv)
  then show ?thesis
    unfolding playMainThemePattern_def new_voices_def voices_playLead vs(1) voices_playDrums
    by simp
qed

theorem kick_pattern_witness:
  "filter is_kick (new_voices (new_engine zero_stream)
       (playMainThemePattern 1 4 8 (new_engine zero_stream))) = [Kick 1] \<and>
   filter is_kick (new_voices (new_engine zero_stream)
       (playMainThemePattern 1 4 32 (new_engine zero_stream))) = []"
  using kick_pattern [of "new_engine zero_stream" 1 4 8]
        kick_pattern [of "new_engine zero_stream" 1 4 32]
  by (simp add: in_section_def BREAKDOWN_def VERSE_def)

subsection \<open>Scale lookup across octaves\<close>

text \<open>For a positive length the index expression of \<open>getFreq\<close> is the floor-mod.\<close>

lemma js_rem_floor_mod:
  assumes "0 < len"
  shows "js_rem (js_rem index len + len) len = index mod len"
proof -
  define m where "m = \<bar>index\<bar> mod len"
  have m: "0 \<le> m" "m < len"
    using assms by (simp_all add: m_def)
  have r: "js_rem index len = sgn index * m"
    using assms by (simp add: js_rem_def m_def)
  have cong: "js_rem index len mod len = index mod len"
  proof (cases "0 \<le> index")
    case True
    then show ?thesis using assms by (simp add: js_rem_def sgn_if)
  next
    case False
    then have "js_rem index len = - ((- index) mod len)"
      using assms by (simp add: js_rem_def sgn_if)
    then show ?thesis by (simp add: mod_minus_eq)
  qed
  have "0 < js_rem index len + len"
    using m unfolding r by (simp add: sgn_if)
  then have "js_rem (js_rem index len + len) len = (js_rem index len + len) mod len"
    using assms by (simp add: js_rem_def)
  also have "\<dots> = index mod len"
    using cong by simp
  finally show ?thesis .
qed


lemma array_read_mod:
  "xs \<noteq> [] \<Longrightarrow> array_read xs (i mod int (length xs)) = Num (xs ! nat (i mod int (length xs)))"
  by (simp add: array_read_def)

text \<open>
  For a scale of the engine \<open>getFreq\<close> is the product of an entry of the scale and a power
  of two; so is the older \<open>getFreq\<close>, from index 0 on.
\<close>

lemma getFreq_Own:
  assumes "scales n = Some sc" "sc \<noteq> []"
  shows "getFreq n i = js_mul (Num (sc ! nat (i mod int (length sc))))
                             (Math_pow2 (i div int (length sc)))"
  using assms
  by (simp add: getFreq_def get_property_def Let_def js_rem_floor_mod floor_divide_of_int_eq
        array_read_mod)


lemma scales_cases:
  assumes "scales n = Some sc"
  shows "sc \<noteq> []" "\<forall>d\<in>set sc. 2 ^ 7 \<le> d \<and> d \<le> 255"
  using assms by (auto simp: scales_def split: if_splits)


lemma scales_mainTheme:
  "scales ''mainTheme'' = Some [130.81, 146.83, 155.56, 174.61, 196.00, 207.65, 233.08]"
  by (simp add: scales_def)


text \<open>
  Between the smallest normal double and the overflow threshold the product is the
  exact one.
\<close>

lemma js_range_exact:
  "1 / 2 ^ 1022 \<le> x \<Longrightarrow> x < 2 ^ 1024 - 2 ^ 970 \<Longrightarrow> js_range x = Num x"
  by (simp add: js_range_def)

lemma pow_range:
  fixes d :: rat
  assumes "lo \<le> d" "d \<le> 255" "0 < lo" "- 1022 \<le> q + e" "lo = 2 ^ e'" "e = int e'" "q \<le> 1016"
  shows "1 / 2 ^ 1022 \<le> d * 2 powi q" "d * 2 powi q < 2 ^ 1024 - 2 ^ 970"
proof -
  have "(1::rat) / 2 ^ 1022 = 2 powi (- 1022)"
    by (simp add: power_int_minus_divide)
  also have "\<dots> \<le> 2 powi (q + e)"
    using assms(4) by (intro power_int_increasing) simp_all
  also have "\<dots> = lo * 2 powi q"
    using assms(5,6) by (simp add: power_int_add)
  also have "\<dots> \<le> d * 2 powi q"
    using assms(1) by (intro mult_right_mono) simp_all
  finally show "1 / 2 ^ 1022 \<le> d * 2 powi q" .
  have "d * 2 powi q \<le> 255 * 2 powi q"
    using assms(2) by (intro mult_right_mono) simp_all
  also have "\<dots> \<le> 255 * 2 powi 1016"
    using assms(7) by (intro mult_left_mono power_int_increasing) simp_all
  also have "\<dots> < (2 ^ 1024 - 2 ^ 970 :: rat)"
    by simp
  finally show "d * 2 powi q < 2 ^ 1024 - 2 ^ 970" .
qed

lemma js_mul_pow2_exact:
  fixes d :: rat
  assumes "2 ^ e \<le> d" "d \<le> 255" "- 1022 \<le> q + int e" "e \<le> 52" "q \<le> 1016"
  shows "js_mul (Num d) (Math_pow2 q) = Num (d * 2 powi q)"
proof -
  have q: "- 1074 \<le> q" "q < 1024"
    using assms(3,4,5) by simp_all
  have "0 < (2::rat) ^ e" by simp
  from pow_range [OF assms(1,2) this assms(3) refl refl assms(5)]
  have "js_range (d * 2 powi q) = Num (d * 2 powi q)"
    by (rule js_range_exact)
  with q show ?thesis
    by (simp add: Math_pow2_def)
qed

lemma getFreq_in_range:
  assumes "scales n = Some sc" "- 1029 \<le> i div int (length sc)" "i div int (length sc) \<le> 1016"
  shows "getFreq n i = Num (sc ! nat (i mod int (length sc)) * 2 powi (i div int (length sc)))"
proof -
  note c = scales_cases [OF assms(1)]
  let ?d = "sc ! nat (i mod int (length sc))"
  have "nat (i mod int (length sc)) < length sc"
    using c(1) by (simp add: nat_less_iff)
  then have d: "2 ^ 7 \<le> ?d" "?d \<le> 255"
    using c(2) nth_mem by blast+
  show ?thesis
    unfolding getFreq_Own [OF assms(1) c(1)]
    using assms(2,3) by (intro js_mul_pow2_exact [OF d]) simp_all
qed












subsection \<open>Lead melody of the main theme\<close>

text \<open>
  In the octaves the melody uses, a frequency and its double are finite and exact.
\<close>

lemma getFreq_finite:
  assumes "scales n = Some sc"
    and "- 1029 \<le> i div int (length sc)" "i div int (length sc) \<le> 1015"
  shows "\<exists>f. getFreq n i = Num f \<and> 0 < f \<and> js_range f = Num f \<and>
             js_range (2 * f) = Num (2 * f) \<and> getFreq n (i + int (length sc)) = Num (2 * f)"
proof -
  note c = scales_cases [OF assms(1)]
  let ?len = "int (length sc)"
  let ?d = "sc ! nat (i mod ?len)"
  let ?q = "i div ?len"
  have len: "0 < ?len" using c(1) by simp
  have dv: "(i + ?len) div ?len = ?q + 1" "(i + ?len) mod ?len = i mod ?len"
    using len by simp_all
  have "nat (i mod ?len) < length sc"
    using c(1) by (simp add: nat_less_iff)
  then have d: "2 ^ 7 \<le> ?d" "?d \<le> 255"
    using c(2) nth_mem by blast+
  have p: "0 < (2::rat) ^ 7" by simp
  have a: "- 1022 \<le> ?q + int 7" "?q \<le> 1016" "- 1022 \<le> (?q + 1) + int 7" "?q + 1 \<le> 1016"
    using assms(2,3) by simp_all
  have e: "2 * (?d * 2 powi ?q) = ?d * 2 powi (?q + 1)"
    by (simp add: power_int_add)
  have lo: "getFreq n i = Num (?d * 2 powi ?q)"
    using assms by (intro getFreq_in_range) simp_all
  have hi: "getFreq n (i + ?len) = Num (2 * (?d * 2 powi ?q))"
    using getFreq_in_range [OF assms(1), of "i + ?len"] assms(2,3) unfolding dv e by simp
  have "0 < ?d" using d(1) by simp
  then have pos: "0 < ?d * 2 powi ?q"
    by (simp add: zero_less_mult_iff)
  have r1: "js_range (?d * 2 powi ?q) = Num (?d * 2 powi ?q)"
    using pow_range [OF d p a(1) refl refl a(2)] by (intro js_range_exact)
  have r2: "js_range (2 * (?d * 2 powi ?q)) = Num (2 * (?d * 2 powi ?q))"
    unfolding e
    using pow_range [OF d p a(3) refl refl a(4)] by (intro js_range_exact)
  show ?thesis
    using lo hi pos r1 r2 by blast
qed

lemma melody_range:
  assumes "tk < 16"
  shows "- 1 \<le> melody ! tk" "melody ! tk \<le> 8"
proof -
  have "\<forall>x\<in>set melody. - 1 \<le> x \<and> x \<le> 8"
    by (simp add: melody_def)
  moreover have "melody ! tk \<in> set melody"
    using assms by (intro nth_mem) (simp add: melody_def)
  ultimately show "- 1 \<le> melody ! tk" "melody ! tk \<le> 8"
    by blast+
qed

text \<open>
  Claim C6. On the main-theme track, for every bar in CHORUS or OUTRO and every tick
  \<open>t\<close> in 0..15: if entry \<open>t\<close> of the 16-step melody is the silence marker \<open>-1\<close>, no lead
  voice is emitted; otherwise exactly one is, at the scheduled time, lasting two note
  lengths at the default volume, and its frequency is the scale frequency of that
  melody degree, doubled (one octave up) when the bar is in OUTRO. That scale frequency
  is a finite positive number \<open>f\<close>, and the frequency of the voice is \<open>f\<close>, or \<open>2 * f\<close> in
  OUTRO, without overflow or underflow.
\<close>

theorem lead_pattern:
  assumes "tk < 16" and "in_section CHORUS bar \<or> in_section OUTRO bar"
  shows "length melody = 16 \<and>
     filter is_lead (new_voices s (playMainThemePattern time tk bar s)) =
       (if melody ! tk = - 1 then []
        else [FMLead (js_mul (Num (if in_section OUTRO bar then 2 else 1))
                        (getFreq ''mainTheme'' (melody ! tk)))
                time (noteLength s * 2) 0.15]) \<and>
     (\<exists>f. getFreq ''mainTheme'' (melody ! tk) = Num f \<and> 0 < f \<and>
          js_mul (Num (if in_section OUTRO bar then 2 else 1))
            (getFreq ''mainTheme'' (melody ! tk)) =
          Num ((if in_section OUTRO bar then 2 else 1) * f))"
proof -
  obtain vs where vs: "voices (playBass time tk bar (playDrums time tk bar s)) =
       voices (playDrums time tk bar s) @ vs" "\<forall>v\<in>set vs. \<not> is_kick v \<and> \<not> is_lead v"
    using voices_playBass by blast
  have no_lead: "filter is_lead vs = []"
    using vs(2) by (simp add: filter_empty_conv)
  have outro: "in_section OUTRO bar = (sec_start OUTRO \<le> bar)"
    by (simp add: in_section_def OUTRO_def)
  have len: "length melody = 16"
    by (simp add: melody_def)
  note m = melody_range [OF assms(1)]
  have q: "- 1029 \<le> melody ! tk div 7" "melody ! tk div 7 \<le> 1015"
    using m by simp_all
  obtain f where f: "getFreq ''mainTheme'' (melody ! tk) = Num f" "0 < f" "js_range f = Num f"
      "js_range (2 * f) = Num (2 * f)" "getFreq ''mainTheme'' (melody ! tk + 7) = Num (2 * f)"
    using getFreq_finite [OF scales_mainTheme, of "melody ! tk"] q by auto
  have k: "js_mul (Num (if in_section OUTRO bar then 2 else 1))
            (getFreq ''mainTheme'' (melody ! tk)) =
          Num ((if in_section OUTRO bar then 2 else 1) * f)"
    using f(3,4) by (simp add: f(1))
  have o: "getFreq ''mainTheme'' (melody ! tk + (if in_section OUTRO bar then 7 else 0)) =
          Num ((if in_section OUTRO bar then 2 else 1) * f)"
    using f(1,5) by simp
  have "filter is_lead (new_voices s (playMainThemePattern time tk bar s)) =
       (if melody ! tk = - 1 then []
        else [FMLead (js_mul (Num (if in_section OUTRO bar then 2 else 1))
                        (getFreq ''mainTheme'' (melody ! tk)))
                time (noteLength s * 2) 0.15])"
    using assms(2) no_lead
    unfolding playMainThemePattern_def new_voices_def voices_playLead vs(1) voices_playDrums k
      outro [symmetric] o
    by (simp add: outro)
  with len f(1,2) k show ?thesis by blast
qed

theorem lead_pattern_witness:
  "(3::nat) < 16 \<and> in_section CHORUS 20 \<and> (12::nat) < 16 \<and> in_section OUTRO 50 \<and>
   (1::nat) < 16 \<and>
   filter is_lead (new_voices (new_engine zero_stream)
       (playMainThemePattern 1 3 20 (new_engine zero_stream))) =
     [FMLead (Num 293.66) 1 (15 / 64) 0.15] \<and>
   filter is_lead (new_voices (new_engine zero_stream)
       (playMainThemePattern 1 12 50 (new_engine zero_stream))) =
     [FMLead (Num 261.62) 1 (15 / 64) 0.15] \<and>
   filter is_lead (new_voices (new_engine zero_stream)
       (playMainThemePattern 1 1 20 (new_engine zero_stream))) = []"
proof -
  have c: "in_section CHORUS 20" and o: "in_section OUTRO 50"
    by (simp_all add: in_section_def CHORUS_def OUTRO_def)
  have no: "\<not> in_section OUTRO 20"
    by (simp add: in_section_def OUTRO_def)
  have f: "getFreq ''mainTheme'' 8 = Num 293.66" "getFreq ''mainTheme'' 0 = Num 130.81"
    using getFreq_in_range [OF scales_mainTheme, of 8]
          getFreq_in_range [OF scales_mainTheme, of 0]
    by simp_all
  have n: "noteLength (new_engine zero_stream) * 2 = 15 / 64"
    by (simp add: new_engine_def)
  show ?thesis
    using lead_pattern [of 3 20 "new_engine zero_stream" 1]
          lead_pattern [of 12 50 "new_engine zero_stream" 1]
          lead_pattern [of 1 20 "new_engine zero_stream" 1]
    by (simp add: c o no f n melody_def js_range_def)
qed

subsection \<open>Tick and bar counters\<close>

text \<open>
  The pattern generators leave the transport fields alone; one loop iteration moves
  \<open>nextNoteTime\<close> by one note length and advances the counters.
\<close>

lemmas field_if = if_distrib [of tick] if_distrib [of measure] if_distrib [of noteLength]
  if_distrib [of nextNoteTime] if_distrib [of isPlaying] if_distrib [of currentTrack]
  if_distrib [of bpm]

lemma playAmbientPattern_frame [simp]:
  "tick (playAmbientPattern time tk bar s) = tick s"
  "measure (playAmbientPattern time tk bar s) = measure s"
  "noteLength (playAmbientPattern time tk bar s) = noteLength s"
  "nextNoteTime (playAmbientPattern time tk bar s) = nextNoteTime s"
  "isPlaying (playAmbientPattern time tk bar s) = isPlaying s"
  "currentTrack (playAmbientPattern time tk bar s) = currentTrack s"
  "bpm (playAmbientPattern time tk bar s) = bpm s"
  by (simp_all add: playAmbientPattern_def Let_def case_prod_beta field_if
        split del: if_split cong del: if_weak_cong)

lemma playMainThemePattern_frame [simp]:
  "tick (playMainThemePattern time tk bar s) = tick s"
  "measure (playMainThemePattern time tk bar s) = measure s"
  "noteLength (playMainThemePattern time tk bar s) = noteLength s"
  "nextNoteTime (playMainThemePattern time tk bar s) = nextNoteTime s"
  "isPlaying (playMainThemePattern time tk bar s) = isPlaying s"
  "currentTrack (playMainThemePattern time tk bar s) = currentTrack s"
  "bpm (playMainThemePattern time tk bar s) = bpm s"
  by (simp_all add: playMainThemePattern_def playDrums_def playBass_def playLead_def Let_def
        case_prod_beta field_if split del: if_split cong del: if_weak_cong)

lemma schedule_body_frame [simp]:
  "tick (schedule_body s) = (if tick s + 1 \<ge> 16 then 0 else tick s + 1)"
  "measure (schedule_body s) = (if tick s + 1 \<ge> 16 then measure s + 1 else measure s)"
  "noteLength (schedule_body s) = noteLength s"
  "nextNoteTime (schedule_body s) = nextNoteTime s + noteLength s"
  "isPlaying (schedule_body s) = isPlaying s"
  "currentTrack (schedule_body s) = currentTrack s"
  "bpm (schedule_body s) = bpm s"
  by (simp_all add: schedule_body_def advance_def Let_def)

lemma body_iter_tick:
  "tick s < 16 \<Longrightarrow> tick ((schedule_body ^^ k) s) = (tick s + k) mod 16 \<and>
     measure ((schedule_body ^^ k) s) = measure s + (tick s + k) div 16"
proof (induction k)
  case 0
  then show ?case by simp
next
  case (Suc k)
  then show ?case
    by (auto simp: mod_Suc div_Suc)
qed

lemma advance_iter_tick:
  "tick s < 16 \<Longrightarrow> tick ((advance ^^ k) s) = (tick s + k) mod 16 \<and>
     measure ((advance ^^ k) s) = measure s + (tick s + k) div 16"
proof (induction k)
  case 0
  then show ?case by simp
next
  case (Suc k)
  then show ?case
    by (auto simp: mod_Suc div_Suc advance_def Let_def)
qed

subsection \<open>The scheduling loop\<close>

text \<open>
  A result of \<open>schedule\<close> is a number of loop iterations after which the exit test
  holds; with a positive note length the loop returns.
\<close>

lemma schedule_Some_iter:
  assumes "schedule now s = Some s'"
  shows "\<exists>n. s' = (schedule_body ^^ n) s \<and> \<not> nextNoteTime s' < now + lookahead"
proof (rule schedule.raw_induct [where P = "\<lambda>now s s'.
     \<exists>n. s' = (schedule_body ^^ n) s \<and> \<not> nextNoteTime s' < now + lookahead", OF _ assms])
  fix sch :: "rat \<Rightarrow> engine \<Rightarrow> engine option" and t :: rat and a b :: engine
  assume IH: "\<And>t a b. sch t a = Some b \<Longrightarrow>
     \<exists>n. b = (schedule_body ^^ n) a \<and> \<not> nextNoteTime b < t + lookahead"
  assume eq: "(if nextNoteTime a < t + lookahead then sch t (schedule_body a) else Some a) = Some b"
  show "\<exists>n. b = (schedule_body ^^ n) a \<and> \<not> nextNoteTime b < t + lookahead"
  proof (cases "nextNoteTime a < t + lookahead")
    case True
    with eq have "sch t (schedule_body a) = Some b" by simp
    from IH [OF this] obtain n where "b = (schedule_body ^^ n) (schedule_body a)"
      "\<not> nextNoteTime b < t + lookahead" by blast
    then have "b = (schedule_body ^^ Suc n) a \<and> \<not> nextNoteTime b < t + lookahead"
      by (simp add: funpow_swap1)
    then show ?thesis by blast
  next
    case False
    with eq have "b = a" by simp
    with False have "b = (schedule_body ^^ 0) a \<and> \<not> nextNoteTime b < t + lookahead"
      by simp
    then show ?thesis by blast
  qed
qed

lemma body_iter_frame [simp]:
  "noteLength ((schedule_body ^^ n) s) = noteLength s"
  "nextNoteTime ((schedule_body ^^ n) s) = nextNoteTime s + of_nat n * noteLength s"
  "isPlaying ((schedule_body ^^ n) s) = isPlaying s"
  "currentTrack ((schedule_body ^^ n) s) = currentTrack s"
  "bpm ((schedule_body ^^ n) s) = bpm s"
  by (induction n) (simp_all add: algebra_simps)

lemma schedule_terminates_aux:
  "0 < noteLength s \<Longrightarrow> nat \<lceil>(now + lookahead - nextNoteTime s) / noteLength s\<rceil> = k \<Longrightarrow>
     \<exists>n. schedule now s = Some ((schedule_body ^^ n) s) \<and>
         (n = 0) = (\<not> nextNoteTime s < now + lookahead)"
proof (induction k arbitrary: s)
  case 0
  then have "(now + lookahead - nextNoteTime s) / noteLength s \<le> 0"
    by simp
  with 0(1) have "\<not> nextNoteTime s < now + lookahead"
    by (simp add: divide_le_0_iff)
  then have "schedule now s = Some ((schedule_body ^^ 0) s)"
    by (subst schedule.simps) simp
  with \<open>\<not> nextNoteTime s < now + lookahead\<close> show ?case by blast
next
  case (Suc k)
  show ?case
  proof (cases "nextNoteTime s < now + lookahead")
    case True
    let ?s = "schedule_body s"
    have eq: "(now + lookahead - nextNoteTime ?s) / noteLength ?s =
          (now + lookahead - nextNoteTime s) / noteLength s - 1"
      using Suc.prems(1) by (simp add: field_simps)
    have "nat \<lceil>(now + lookahead - nextNoteTime ?s) / noteLength ?s\<rceil> = k"
      unfolding eq using Suc.prems(2) by simp
    moreover have "0 < noteLength ?s" using Suc.prems(1) by simp
    ultimately obtain n where n: "schedule now ?s = Some ((schedule_body ^^ n) ?s)"
      using Suc.IH by blast
    have "schedule now s = schedule now ?s"
      using True by (subst schedule.simps) simp
    with n have "schedule now s = Some ((schedule_body ^^ Suc n) s)"
      by (simp add: funpow_swap1)
    with True show ?thesis by blast
  next
    case False
    then have "schedule now s = Some ((schedule_body ^^ 0) s)"
      by (subst schedule.simps) simp
    with False show ?thesis by blast
  qed
qed

lemma schedule_terminates:
  "0 < noteLength s \<Longrightarrow>
     \<exists>n. schedule now s = Some ((schedule_body ^^ n) s) \<and>
         (n = 0) = (\<not> nextNoteTime s < now + lookahead)"
  using schedule_terminates_aux by blast

lemma schedule_once:
  "nextNoteTime s < now + lookahead \<Longrightarrow>
   \<not> nextNoteTime s + noteLength s < now + lookahead \<Longrightarrow>
   schedule now s = Some (schedule_body s)"
  by (subst schedule.simps, simp, subst schedule.simps, simp)

lemma schedule_none: "\<not> nextNoteTime s < now + lookahead \<Longrightarrow> schedule now s = Some s"
  by (subst schedule.simps) simp

text \<open>
  Every run of a new engine returns, and keeps the note length positive and the tick
  below 16.
\<close>

lemma step_invariant:
  assumes "0 < noteLength s" "tick s < 16"
  shows "\<exists>s'. step e s = Some s' \<and> 0 < noteLength s' \<and> tick s' < 16"
proof (cases e)
  case (Pulse now)
  obtain n where n: "schedule now s = Some ((schedule_body ^^ n) s)"
    using schedule_terminates [OF assms(1)] by blast
  have "tick ((schedule_body ^^ n) s) < 16"
    using body_iter_tick [OF assms(2), of n] by simp
  with n assms(1) Pulse show ?thesis by simp
next
  case (Start now)
  with assms show ?thesis by (simp add: start_def Let_def)
next
  case (Stop now)
  with assms show ?thesis by (simp add: stop_def)
next
  case (SwitchTrack now name)
  with assms show ?thesis by (simp add: switchTrack_def)
next
  case (Timeout now)
  with assms show ?thesis
    by (cases "pending s") (simp_all add: switchTrack_timeout_def Let_def)
qed

lemma run_invariant:
  "0 < noteLength s \<Longrightarrow> tick s < 16 \<Longrightarrow>
     \<exists>s'. run es s = Some s' \<and> 0 < noteLength s' \<and> tick s' < 16"
proof (induction es arbitrary: s)
  case Nil
  then show ?case by simp
next
  case (Cons e es)
  obtain s1 where s1: "step e s = Some s1" "0 < noteLength s1" "tick s1 < 16"
    using step_invariant [OF Cons.prems] by blast
  from Cons.IH [OF s1(2,3)] s1(1) show ?case by simp
qed

lemma run_new_engine:
  "\<exists>s. run es (new_engine r) = Some s \<and> 0 < noteLength s \<and> tick s < 16"
  by (rule run_invariant) (simp_all add: new_engine_def)

text \<open>
  Claim C2. For every tick value \<open>t\<close> in 0..15 and every bar value, 16 applications of
  the scheduler's advance step (alone, or as part of a whole loop iteration of
  \<^verbatim>\<open>_schedule\<close>) bring \<open>tick\<close> back to \<open>t\<close> and increase \<open>measure\<close> by exactly 1;
  after any number \<open>k\<close> of steps \<open>tick\<close> is still in 0..15, and so it is after every
  run of a new engine.
\<close>

theorem tick_cycle:
  assumes "tick s < 16"
  shows "tick ((schedule_body ^^ 16) s) = tick s \<and>
         measure ((schedule_body ^^ 16) s) = measure s + 1 \<and>
         tick ((schedule_body ^^ k) s) < 16 \<and>
         tick ((advance ^^ 16) s) = tick s \<and>
         measure ((advance ^^ 16) s) = measure s + 1 \<and>
         tick ((advance ^^ k) s) < 16 \<and>
         (\<exists>s'. run es (new_engine r) = Some s' \<and> tick s' < 16)"
proof -
  have a: "(tick s + 16) mod 16 = tick s" "(tick s + 16) div 16 = 1" "(tick s + k) mod 16 < 16"
    using assms by simp_all
  have "tick ((schedule_body ^^ 16) s) = tick s \<and>
         measure ((schedule_body ^^ 16) s) = measure s + 1 \<and>
         tick ((schedule_body ^^ k) s) < 16 \<and>
         tick ((advance ^^ 16) s) = tick s \<and>
         measure ((advance ^^ 16) s) = measure s + 1 \<and>
         tick ((advance ^^ k) s) < 16"
    unfolding body_iter_tick [OF assms, THEN conjunct1] body_iter_tick [OF assms, THEN conjunct2]
      advance_iter_tick [OF assms, THEN conjunct1] advance_iter_tick [OF assms, THEN conjunct2] a
    by (simp only: a simp_thms)
  moreover have "\<exists>s'. run es (new_engine r) = Some s' \<and> tick s' < 16"
    using run_new_engine [of es r] by blast
  ultimately show ?thesis by blast
qed

theorem tick_cycle_witness:
  "tick (new_engine zero_stream) < 16 \<and>
   tick ((schedule_body ^^ 16) (new_engine zero_stream)) = 0 \<and>
   measure ((schedule_body ^^ 16) (new_engine zero_stream)) = 1"
proof -
  have t: "tick (new_engine zero_stream) = 0" "measure (new_engine zero_stream) = 0"
    by (simp_all add: new_engine_def)
  have h: "tick (new_engine zero_stream) < 16"
    by (simp add: t)
  have "tick ((schedule_body ^^ 16) (new_engine zero_stream)) = tick (new_engine zero_stream) \<and>
        measure ((schedule_body ^^ 16) (new_engine zero_stream)) =
          measure (new_engine zero_stream) + 1"
    using tick_cycle [OF h, of 0] by blast
  then show ?thesis
    using h t by (metis add_0)
qed

subsection \<open>Voices scheduled by a pulse\<close>

lemma voices_playAmbientPattern_exact:
  "voices (playAmbientPattern time tk bar s) = voices s @
     (if tk = 0 \<and> bar mod 2 = 0
      then [Synth (the (scales ''ambient'') ! (bar mod 4) * 2) time (noteLength s * 32) ''triangle'',
            Synth (the (scales ''ambient'') ! (bar mod 4) * 1.5) time (noteLength s * 32) ''sine'']
      else []) @
     (if tk mod 4 = 0
      then [Synth (the (scales ''ambient'') ! (bar mod 4) / 2) time (noteLength s * 3) ''sine'']
      else []) @
     (if 0.85 < frac (rnd s (rnd_i s))
      then [Synth (the (scales ''ambient'') ! (bar mod 4) *
                   ([1, 1.25, 1.5, 1.75] ! nat \<lfloor>frac (rnd s (Suc (rnd_i s))) * 4\<rfloor>) * 2)
              time 0.3 ''sine'']
      else [])"
proof -
  define root where "root = the (scales ''ambient'') ! (bar mod 4)"
  define c1 where "c1 \<longleftrightarrow> tk = 0 \<and> bar mod 2 = 0"
  define c2 where "c2 \<longleftrightarrow> tk mod 4 = 0"
  define s1 where "s1 = (if c1
                then playSynth (root * 1.5) time (noteLength s * 32) ''sine''
                       (playSynth (root * 2) time (noteLength s * 32) ''triangle'' s)
                else s)"
  define s2 where "s2 = (if c2 then playSynth (root / 2) time (noteLength s1 * 3) ''sine'' s1
                else s1)"
  define c3 where "c3 \<longleftrightarrow> 0.85 < fst (Math_random s2)"
  define s3 where "s3 = snd (Math_random s2)"
  define f where "f = root * ([1, 1.25, 1.5, 1.75] ! nat \<lfloor>fst (Math_random s3) * 4\<rfloor>) * 2"
  have shape: "playAmbientPattern time tk bar s =
      (if c3 then playSynth f time 0.3 ''sine'' (snd (Math_random s3)) else s3)"
    unfolding playAmbientPattern_def Let_def case_prod_beta
      root_def c1_def c2_def c3_def s1_def s2_def s3_def f_def
    by (rule refl)
  have s1: "voices s1 = voices s @ (if c1 then [Synth (root * 2) time (noteLength s * 32) ''triangle'',
       Synth (root * 1.5) time (noteLength s * 32) ''sine''] else [])"
     "noteLength s1 = noteLength s" "rnd s1 = rnd s" "rnd_i s1 = rnd_i s"
    by (cases c1; simp add: s1_def)+
  have s2: "voices s2 = voices s1 @ (if c2 then [Synth (root / 2) time (noteLength s * 3) ''sine''] else [])"
     "rnd s2 = rnd s" "rnd_i s2 = rnd_i s"
    by (cases c2; simp add: s2_def s1)+
  have s3: "voices s3 = voices s2" "rnd s3 = rnd s" "rnd_i s3 = Suc (rnd_i s)"
    by (simp_all add: s3_def s2)
  have c3: "c3 \<longleftrightarrow> 0.85 < frac (rnd s (rnd_i s))"
    by (simp only: c3_def Math_random_fst s2)
  have f: "f = root * ([1, 1.25, 1.5, 1.75] ! nat \<lfloor>frac (rnd s (Suc (rnd_i s))) * 4\<rfloor>) * 2"
    by (simp only: f_def Math_random_fst s3)
  have "voices (playAmbientPattern time tk bar s) =
      voices s3 @ (if c3 then [Synth f time 0.3 ''sine''] else [])"
    unfolding shape by (cases c3; simp)
  then show ?thesis
    unfolding s3 s2 s1 c3 f unfolding root_def c1_def c2_def
    by (simp only: append_assoc)
qed













subsection \<open>Monotonicity of the transport clock\<close>








text \<open>
  A run on the main theme in which the track is switched back while voices are queued.
\<close>

lemma builders_pending [simp]:
  "pending (playKick t s) = pending s"
  "pending (playSnare t s) = pending s"
  "pending (playHihat t b s) = pending s"
  "pending (playSuperSawBass f t d c s) = pending s"
  "pending (playFMLead f t d vo s) = pending s"
  "pending (playSynth fr t d ty s) = pending s"
  "pending (snd (Math_random s)) = pending s"
  by (simp_all add: playKick_def playSnare_def playHihat_def playSuperSawBass_def
        playFMLead_def playSynth_def Math_random_def makeCleanup_def Let_def)

lemma patterns_pending [simp]:
  "pending (playAmbientPattern time tk bar s) = pending s"
  "pending (playMainThemePattern time tk bar s) = pending s"
  by (simp_all add: playAmbientPattern_def playMainThemePattern_def playDrums_def playBass_def
        playLead_def Let_def case_prod_beta if_distrib [of pending]
        split del: if_split cong del: if_weak_cong)

lemma patterns_rnd [simp]:
  "rnd (playAmbientPattern time tk bar s) = rnd s"
  "rnd (playMainThemePattern time tk bar s) = rnd s"
  by (simp_all add: playAmbientPattern_def playMainThemePattern_def playDrums_def playBass_def
        playLead_def Let_def case_prod_beta if_distrib [of rnd]
        split del: if_split cong del: if_weak_cong)

lemma schedule_body_pending [simp]:
  "pending (schedule_body s) = pending s" "rnd (schedule_body s) = rnd s"
  by (simp_all add: schedule_body_def advance_def Let_def)











subsection \<open>Sidechain ducking\<close>

lemma timeline_append: "timeline (xs @ ys) = foldl apply_call (timeline xs) ys"
  by (simp add: timeline_def)

lemma sidechain_playKick:
  "sidechain_gain (playKick T s) = sidechain_gain s @
     [CancelScheduledValues T, SetValueAtTime 0.3 T, ExponentialRampToValueAtTime 1 (T + 0.15)]"
  by (simp add: playKick_def makeCleanup_def Let_def)

lemma timeline_playKick:
  "timeline (sidechain_gain (playKick T s)) =
     filter (\<lambda>e. call_time e < T) (timeline (sidechain_gain s)) @
       [SetValueAtTime 0.3 T, ExponentialRampToValueAtTime 1 (T + 0.15)]"
  by (simp add: sidechain_playKick timeline_append)

text \<open>
  Claim C7. A kick at scheduled time \<open>T\<close> issues on the sidechain bus gain exactly the
  calls cancel-from-\<open>T\<close>, set to the floor 0.3 at \<open>T\<close>, exponential ramp to 1.0 ending
  at \<open>T + 0.15\<close>; on the timeline this leaves the events before \<open>T\<close>, the set and the
  ramp. For two kicks at \<open>T\<close> and \<open>T + 0.1\<close> both issue their ramp, the cancel of the
  second removes the ramp of the first (it ends at \<open>T + 0.15 \<ge> T + 0.1\<close>), and from
  \<open>T\<close> on the timeline holds a single ramp, the one of the second kick.
\<close>

theorem kick_sidechain_duck:
  "sidechain_gain (playKick T s) = sidechain_gain s @
     [CancelScheduledValues T, SetValueAtTime 0.3 T, ExponentialRampToValueAtTime 1 (T + 0.15)] \<and>
   timeline (sidechain_gain (playKick T s)) =
     filter (\<lambda>e. call_time e < T) (timeline (sidechain_gain s)) @
       [SetValueAtTime 0.3 T, ExponentialRampToValueAtTime 1 (T + 0.15)] \<and>
   timeline (sidechain_gain (playKick (T + 0.1) (playKick T s))) =
     filter (\<lambda>e. call_time e < T) (timeline (sidechain_gain s)) @
       [SetValueAtTime 0.3 T, SetValueAtTime 0.3 (T + 0.1),
        ExponentialRampToValueAtTime 1 (T + 0.25)] \<and>
   filter is_ramp (filter (\<lambda>e. T \<le> call_time e)
       (timeline (sidechain_gain (playKick (T + 0.1) (playKick T s))))) =
     [ExponentialRampToValueAtTime 1 (T + 0.25)]"
proof -
  have two: "timeline (sidechain_gain (playKick (T + 0.1) (playKick T s))) =
     filter (\<lambda>e. call_time e < T) (timeline (sidechain_gain s)) @
       [SetValueAtTime 0.3 T, SetValueAtTime 0.3 (T + 0.1),
        ExponentialRampToValueAtTime 1 (T + 0.25)]"
    unfolding timeline_playKick [of "T + 0.1"] timeline_playKick [of T]
    by (auto intro: filter_cong)
  have "filter is_ramp (filter (\<lambda>e. T \<le> call_time e)
       (timeline (sidechain_gain (playKick (T + 0.1) (playKick T s))))) =
     [ExponentialRampToValueAtTime 1 (T + 0.25)]"
    unfolding two by (auto simp: filter_empty_conv)
  with two show ?thesis
    using sidechain_playKick timeline_playKick by blast
qed

theorem kick_sidechain_duck_witness:
  "sidechain_gain (playKick 1 (new_engine zero_stream)) =
     [CancelScheduledValues 1, SetValueAtTime 0.3 1, ExponentialRampToValueAtTime 1 1.15] \<and>
   timeline (sidechain_gain (playKick 1 (new_engine zero_stream))) =
     [SetValueAtTime 0.3 1, ExponentialRampToValueAtTime 1 1.15] \<and>
   timeline (sidechain_gain (playKick 1.1 (playKick 1 (new_engine zero_stream)))) =
     [SetValueAtTime 0.3 1, SetValueAtTime 0.3 1.1, ExponentialRampToValueAtTime 1 1.25]"
proof -
  have e: "sidechain_gain (new_engine zero_stream) = []"
    by (simp add: new_engine_def)
  have t: "timeline [] = []"
    by (simp add: timeline_def)
  show ?thesis
    using kick_sidechain_duck [where T = 1 and s = "new_engine zero_stream"]
    by (simp add: e timeline_def)
qed

subsection \<open>Idempotent teardown\<close>

lemma call_cleanup_idem: "call_cleanup c (call_cleanup c s) = call_cleanup c s"
  by (simp add: call_cleanup_def Let_def)

lemma call_cleanup_iter: "(call_cleanup c ^^ Suc k) s = call_cleanup c s"
  by (induction k) (simp_all add: call_cleanup_idem)

lemma call_cleanup_onended [simp]: "onended (call_cleanup c s) = onended s"
  by (simp add: call_cleanup_def Let_def)

lemma fire_shared:
  "onended s n = Some c \<Longrightarrow> onended s m = Some c \<Longrightarrow>
     fire_onended m (fire_onended n s) = fire_onended n s"
  by (simp add: fire_onended_def call_cleanup_idem)

lemma bass_handlers:
  "onended (playSuperSawBass f t d cu s) (node_count s) = Some (length (cleanups s))"
  "onended (playSuperSawBass f t d cu s) (node_count s + 1) = Some (length (cleanups s))"
  "cleanups (playSuperSawBass f t d cu s) = cleanups s @
     [\<lparr>cl_done = False, cl_nodes = [node_count s, node_count s + 1, node_count s + 2, node_count s + 3]\<rparr>]"
  "disconnects (playSuperSawBass f t d cu s) = disconnects s"
  by (simp_all add: playSuperSawBass_def makeCleanup_def Let_def)

text \<open>
  Claim C8. The cleanup closure of a voice releases the voice's nodes at most once:
  calling it twice, or any number of times, is the same as calling it once; the first
  call on a closure that has not run disconnects exactly the captured nodes; when two
  \<^verbatim>\<open>onended\<close> handlers hold the same closure, the second to fire changes nothing. For
  the super-saw bass, whichever of its two oscillators ends first disconnects the four
  nodes of the voice once, and the other oscillator's handler is then a no-op.
\<close>

theorem cleanup_at_most_once:
  "call_cleanup c (call_cleanup c s) = call_cleanup c s \<and>
   (call_cleanup c ^^ Suc k) s = call_cleanup c s \<and>
   (c < length (cleanups s) \<longrightarrow> \<not> cl_done (cleanups s ! c) \<longrightarrow>
      disconnects (call_cleanup c s) = disconnects s @ cl_nodes (cleanups s ! c)) \<and>
   (onended s n = Some c \<longrightarrow> onended s m = Some c \<longrightarrow>
      fire_onended m (fire_onended n s) = fire_onended n s) \<and>
   disconnects (fire_onended (node_count s) (playSuperSawBass f t d cu s)) =
     disconnects s @ [node_count s, node_count s + 1, node_count s + 2, node_count s + 3] \<and>
   fire_onended (node_count s + 1) (fire_onended (node_count s) (playSuperSawBass f t d cu s)) =
     fire_onended (node_count s) (playSuperSawBass f t d cu s) \<and>
   disconnects (fire_onended (node_count s + 1) (playSuperSawBass f t d cu s)) =
     disconnects s @ [node_count s, node_count s + 1, node_count s + 2, node_count s + 3] \<and>
   fire_onended (node_count s) (fire_onended (node_count s + 1) (playSuperSawBass f t d cu s)) =
     fire_onended (node_count s + 1) (playSuperSawBass f t d cu s)"
proof -
  let ?b = "playSuperSawBass f t d cu s"
  have f0: "fire_onended (node_count s) ?b = call_cleanup (length (cleanups s)) ?b"
    unfolding fire_onended_def bass_handlers(1) by simp
  have f1: "fire_onended (node_count s + 1) ?b = call_cleanup (length (cleanups s)) ?b"
    unfolding fire_onended_def bass_handlers(2) by simp
  have d0: "disconnects (call_cleanup (length (cleanups s)) ?b) =
     disconnects s @ [node_count s, node_count s + 1, node_count s + 2, node_count s + 3]"
    unfolding call_cleanup_def bass_handlers(3,4) by (simp add: bass_handlers(4))
  have d: "disconnects (fire_onended (node_count s) ?b) =
     disconnects s @ [node_count s, node_count s + 1, node_count s + 2, node_count s + 3]"
    "disconnects (fire_onended (node_count s + 1) ?b) =
     disconnects s @ [node_count s, node_count s + 1, node_count s + 2, node_count s + 3]"
    unfolding f0 f1 by (rule d0)+
  have sh: "fire_onended (node_count s + 1) (fire_onended (node_count s) ?b) =
       fire_onended (node_count s) ?b"
     "fire_onended (node_count s) (fire_onended (node_count s + 1) ?b) =
       fire_onended (node_count s + 1) ?b"
    by (rule fire_shared [OF bass_handlers(1) bass_handlers(2)],
        rule fire_shared [OF bass_handlers(2) bass_handlers(1)])
  have first: "c < length (cleanups s) \<longrightarrow> \<not> cl_done (cleanups s ! c) \<longrightarrow>
      disconnects (call_cleanup c s) = disconnects s @ cl_nodes (cleanups s ! c)"
    by (simp add: call_cleanup_def Let_def)
  show ?thesis
    using d sh first call_cleanup_idem [where c = c and s = s] call_cleanup_iter [where c = c and k = k and s = s]
      fire_shared [where s = s and n = n and c = c and m = m]
    by blast
qed

theorem cleanup_at_most_once_witness:
  "onended (playSuperSawBass (Num 100) 1 1 300 (new_engine zero_stream)) 5 = Some 0 \<and>
   onended (playSuperSawBass (Num 100) 1 1 300 (new_engine zero_stream)) 6 = Some 0 \<and>
   (0::nat) < length (cleanups (playSuperSawBass (Num 100) 1 1 300 (new_engine zero_stream))) \<and>
   \<not> cl_done (cleanups (playSuperSawBass (Num 100) 1 1 300 (new_engine zero_stream)) ! 0) \<and>
   disconnects (call_cleanup 0 (playSuperSawBass (Num 100) 1 1 300 (new_engine zero_stream))) =
     [5, 6, 7, 8] \<and>
   disconnects (fire_onended 6
     (fire_onended 5 (playSuperSawBass (Num 100) 1 1 300 (new_engine zero_stream)))) = [5, 6, 7, 8]"
proof -
  define b where "b = playSuperSawBass (Num 100) 1 1 300 (new_engine zero_stream)"
  have e: "node_count (new_engine zero_stream) = 5" "cleanups (new_engine zero_stream) = []"
    "disconnects (new_engine zero_stream) = []"
    by (simp_all add: new_engine_def)
  have h: "onended b 5 = Some 0" "onended b 6 = Some 0"
    "cleanups b = [\<lparr>cl_done = False, cl_nodes = [5, 6, 7, 8]\<rparr>]" "disconnects b = []"
    using bass_handlers [of "Num 100" 1 1 300 "new_engine zero_stream"]
    by (simp_all add: b_def e)
  have c: "0 < length (cleanups b)" "\<not> cl_done (cleanups b ! 0)"
    by (simp_all add: h)
  have "fire_onended 5 b = call_cleanup 0 b"
    by (simp add: fire_onended_def h)
  then show ?thesis
    using cleanup_at_most_once [where c = 0 and s = b and n = 5 and m = 6] h c
    unfolding b_def [symmetric]
    by simp
qed

subsection \<open>The timer worker follows start and stop\<close>

lemma builders_worker_msgs [simp]:
  "worker_msgs (playKick t s) = worker_msgs s"
  "worker_msgs (playSnare t s) = worker_msgs s"
  "worker_msgs (playHihat t b s) = worker_msgs s"
  "worker_msgs (playSuperSawBass f t d c s) = worker_msgs s"
  "worker_msgs (playFMLead f t d vo s) = worker_msgs s"
  "worker_msgs (playSynth fr t d ty s) = worker_msgs s"
  "worker_msgs (snd (Math_random s)) = worker_msgs s"
  by (simp_all add: playKick_def playSnare_def playHihat_def playSuperSawBass_def
        playFMLead_def playSynth_def Math_random_def makeCleanup_def Let_def)

lemma patterns_worker_msgs [simp]:
  "worker_msgs (playAmbientPattern time tk bar s) = worker_msgs s"
  "worker_msgs (playMainThemePattern time tk bar s) = worker_msgs s"
  by (simp_all add: playAmbientPattern_def playMainThemePattern_def playDrums_def playBass_def
        playLead_def Let_def case_prod_beta if_distrib [of worker_msgs]
        split del: if_split cong del: if_weak_cong)

lemma schedule_body_worker_msgs [simp]: "worker_msgs (schedule_body s) = worker_msgs s"
  by (simp add: schedule_body_def advance_def Let_def)

lemma body_iter_worker_msgs [simp]: "worker_msgs ((schedule_body ^^ n) s) = worker_msgs s"
  by (induction n) simp_all

lemma worker_after_snoc:
  "worker_after (msgs @ [d]) = worker_onmessage (worker_after msgs) d"
  by (simp add: worker_after_def)

lemma start_timer_in_sync: "timer_in_sync s \<Longrightarrow> timer_in_sync (start now s)"
  by (cases "isPlaying s")
     (simp_all add: timer_in_sync_def start_def Let_def worker_after_snoc worker_onmessage_def)

lemma stop_timer_in_sync: "timer_in_sync s \<Longrightarrow> timer_in_sync (stop now s)"
  by (cases "isPlaying s")
     (auto simp: timer_in_sync_def stop_def Let_def worker_after_snoc worker_onmessage_def
           split: option.splits)

lemma switchTrack_timer_in_sync: "timer_in_sync (switchTrack now name s) = timer_in_sync s"
proof -
  have "worker_msgs (switchTrack now name s) = worker_msgs s"
       "isPlaying (switchTrack now name s) = isPlaying s"
    by (simp_all add: switchTrack_def)
  then show ?thesis
    by (simp only: timer_in_sync_def)
qed

lemma switchTrack_timeout_timer_in_sync:
  "timer_in_sync (switchTrack_timeout now name (s\<lparr>pending := rest\<rparr>)) = timer_in_sync s"
proof -
  have "worker_msgs (switchTrack_timeout now name (s\<lparr>pending := rest\<rparr>)) = worker_msgs s"
       "isPlaying (switchTrack_timeout now name (s\<lparr>pending := rest\<rparr>)) = isPlaying s"
    by (simp_all add: switchTrack_timeout_def Let_def)
  then show ?thesis
    by (simp only: timer_in_sync_def)
qed

lemma step_timer_in_sync:
  assumes "timer_in_sync s" "step e s = Some s'"
  shows "timer_in_sync s'"
proof (cases e)
  case (Pulse now)
  with assms(2) have "schedule now s = Some s'" by simp
  from schedule_Some_iter [OF this] obtain n where "s' = (schedule_body ^^ n) s"
    by blast
  with assms(1) show ?thesis by (simp add: timer_in_sync_def Let_def)
next
  case (Start now)
  with assms show ?thesis
    by (auto intro: start_timer_in_sync)
next
  case (Stop now)
  with assms show ?thesis
    by (auto intro: stop_timer_in_sync)
next
  case (SwitchTrack now name)
  with assms show ?thesis by (auto simp: switchTrack_timer_in_sync)
next
  case (Timeout now)
  with assms show ?thesis
    by (cases "pending s") (auto simp: switchTrack_timeout_timer_in_sync)
qed

lemma run_timer_in_sync:
  "timer_in_sync s \<Longrightarrow> run es s = Some s' \<Longrightarrow> timer_in_sync s'"
proof (induction es arbitrary: s)
  case Nil
  then show ?case by simp
next
  case (Cons e es)
  then obtain s1 where "step e s = Some s1" "run es s1 = Some s'"
    by (auto split: option.splits)
  with Cons.IH Cons.prems(1) step_timer_in_sync show ?case by blast
qed

lemma new_engine_timer_in_sync: "timer_in_sync (new_engine r)"
  by (simp add: timer_in_sync_def new_engine_def worker_after_def new_worker_def Let_def)

subsection \<open>Pulses after stop\<close>

text \<open>
  Claim C9, as stated: after \<open>stop\<close> every delivered timer pulse is ignored and no new
  voice is scheduled. It fails: \<^verbatim>\<open>_schedule\<close> does not test \<^verbatim>\<open>isPlaying\<close>. A \<^verbatim>\<open>'tick'\<close>
  message the worker posted before it handled \<^verbatim>\<open>'stop'\<close> is still delivered; after
  \<open>start\<close> at clock 0 and \<open>stop\<close> at clock 0.02, a pulse at clock 0.05 finds
  \<open>nextNoteTime = 0.1 < 0.15\<close> and schedules the three ambient voices of tick 0.
\<close>

theorem pulse_after_stop_counterexample:
  "map_option isPlaying (run [Start 0, Stop (1 / 50)] (new_engine zero_stream)) = Some False \<and>
   map_option voices (run [Start 0, Stop (1 / 50)] (new_engine zero_stream)) = Some [] \<and>
   map_option voices (run [Start 0, Stop (1 / 50), Pulse (1 / 20)] (new_engine zero_stream)) =
     Some [Synth 466.16 (1 / 10) (15 / 4) ''triangle'', Synth 349.62 (1 / 10) (15 / 4) ''sine'',
           Synth 116.54 (1 / 10) (45 / 128) ''sine'']"
proof -
  define s1 where "s1 = stop (1 / 50) (start 0 (new_engine zero_stream))"
  have s1: "nextNoteTime s1 = 1 / 10" "noteLength s1 = 15 / 128" "\<not> isPlaying s1"
    "voices s1 = []" "tick s1 = 0" "measure s1 = 0" "currentTrack s1 = ''ambient''"
    "rnd s1 = zero_stream" "rnd_i s1 = 0"
    by (simp_all add: s1_def start_def stop_def new_engine_def Let_def)
  have p: "schedule (1 / 20) s1 = Some (schedule_body s1)"
    by (rule schedule_once) (simp_all add: s1 lookahead_def)
  have "voices (schedule_body s1) = voices (playAmbientPattern (1 / 10) 0 0 s1)"
    by (simp add: schedule_body_def advance_def Let_def s1)
  also have "\<dots> = [Synth 466.16 (1 / 10) (15 / 4) ''triangle'',
       Synth 349.62 (1 / 10) (15 / 4) ''sine'', Synth 116.54 (1 / 10) (45 / 128) ''sine'']"
    unfolding voices_playAmbientPattern_exact
    by (simp add: s1 scales_def zero_stream_def)
  finally show ?thesis
    using p s1 by (simp add: s1_def [symmetric])
qed

text \<open>
  Claim C9, amended: \<open>stop\<close> itself schedules no voice, leaves the engine not playing
  and (when it was playing) posts \<^verbatim>\<open>'stop'\<close> to the timer worker; in every run of the
  engine, the worker has no interval running once it has handled the messages posted
  up to that \<open>stop\<close>, so it produces no further pulse. A pulse that is nevertheless
  delivered after \<open>stop\<close> (one posted before the worker handled \<^verbatim>\<open>'stop'\<close>) is ignored
  only if \<open>nextNoteTime\<close> is at or beyond \<open>now + lookahead\<close>, and otherwise runs the
  scheduling loop for at least one iteration, as it does while playing.
\<close>

theorem pulse_after_stop:
  "(nextNoteTime s < now + lookahead \<longrightarrow> 0 < noteLength s \<longrightarrow>
      (\<exists>n. step (Pulse now) (stop t s) = Some ((schedule_body ^^ Suc n) (stop t s)))) \<and>
   (\<not> nextNoteTime s < now + lookahead \<longrightarrow> step (Pulse now) (stop t s) = Some (stop t s)) \<and>
   \<not> isPlaying (stop t s) \<and> voices (stop t s) = voices s \<and>
   (isPlaying s \<longrightarrow> worker_msgs (stop t s) = worker_msgs s @ [''stop'']) \<and>
   (run es (new_engine r) = Some s \<longrightarrow>
      w_id (worker_after (worker_msgs (stop t s))) = None \<and>
      w_active (worker_after (worker_msgs (stop t s))) = [])"
proof -
  have f: "nextNoteTime (stop t s) = nextNoteTime s" "noteLength (stop t s) = noteLength s"
    by (simp_all add: stop_def)
  have a: "\<exists>n. step (Pulse now) (stop t s) = Some ((schedule_body ^^ Suc n) (stop t s))"
    if h1: "nextNoteTime s < now + lookahead" and h2: "0 < noteLength s"
  proof -
    obtain n where n: "schedule now (stop t s) = Some ((schedule_body ^^ n) (stop t s))"
       "(n = 0) = (\<not> nextNoteTime (stop t s) < now + lookahead)"
      using schedule_terminates [of "stop t s" now] h2 f by auto
    with h1 f have "n \<noteq> 0" by simp
    then obtain m where "n = Suc m" by (cases n) auto
    with n(1) show ?thesis by auto
  qed
  have b: "step (Pulse now) (stop t s) = Some (stop t s)" if "\<not> nextNoteTime s < now + lookahead"
    using that f by (simp add: schedule_none)
  have c: "\<not> isPlaying (stop t s)" "voices (stop t s) = voices s"
    "isPlaying s \<longrightarrow> worker_msgs (stop t s) = worker_msgs s @ [''stop'']"
    by (simp_all add: stop_def)
  have d: "w_id (worker_after (worker_msgs (stop t s))) = None \<and>
      w_active (worker_after (worker_msgs (stop t s))) = []"
    if "run es (new_engine r) = Some s"
  proof -
    have "timer_in_sync s"
      using run_timer_in_sync [OF new_engine_timer_in_sync that] .
    then have "timer_in_sync (stop t s)"
      by (rule stop_timer_in_sync)
    with c(1) show ?thesis
      by (simp add: timer_in_sync_def Let_def)
  qed
  show ?thesis using a b c d by blast
qed

theorem pulse_after_stop_witness:
  "nextNoteTime (start 0 (new_engine zero_stream)) < 1 / 20 + lookahead \<and>
   0 < noteLength (start 0 (new_engine zero_stream)) \<and>
   isPlaying (start 0 (new_engine zero_stream)) \<and>
   run [Start 0] (new_engine zero_stream) = Some (start 0 (new_engine zero_stream)) \<and>
   step (Pulse (1 / 20)) (stop (1 / 50) (start 0 (new_engine zero_stream))) =
     Some (schedule_body (stop (1 / 50) (start 0 (new_engine zero_stream)))) \<and>
   (\<exists>n. step (Pulse (1 / 20)) (stop (1 / 50) (start 0 (new_engine zero_stream))) =
     Some ((schedule_body ^^ Suc n) (stop (1 / 50) (start 0 (new_engine zero_stream))))) \<and>
   \<not> nextNoteTime (start 0 (new_engine zero_stream)) < 0 + lookahead \<and>
   step (Pulse 0) (stop (1 / 50) (start 0 (new_engine zero_stream))) =
     Some (stop (1 / 50) (start 0 (new_engine zero_stream))) \<and>
   worker_msgs (stop (1 / 50) (start 0 (new_engine zero_stream))) = [''start'', ''stop''] \<and>
   w_active (worker_after (worker_msgs (start 0 (new_engine zero_stream)))) = [0] \<and>
   w_active (worker_after (worker_msgs (stop (1 / 50) (start 0 (new_engine zero_stream))))) = []"
proof -
  define s1 where "s1 = start 0 (new_engine zero_stream)"
  have s1: "nextNoteTime s1 = 1 / 10" "noteLength s1 = 15 / 128" "isPlaying s1"
    "worker_msgs s1 = [''start'']"
    by (simp_all add: s1_def start_def new_engine_def Let_def)
  have f: "nextNoteTime (stop (1 / 50) s1) = 1 / 10" "noteLength (stop (1 / 50) s1) = 15 / 128"
    by (simp_all add: stop_def s1)
  have p: "step (Pulse (1 / 20)) (stop (1 / 50) s1) = Some (schedule_body (stop (1 / 50) s1))"
    using schedule_once [of "stop (1 / 50) s1" "1 / 20"] by (simp add: f lookahead_def)
  have h: "nextNoteTime s1 < 1 / 20 + lookahead" "0 < noteLength s1"
     "\<not> nextNoteTime s1 < 0 + lookahead"
    by (simp_all add: s1 lookahead_def)
  have r: "run [Start 0] (new_engine zero_stream) = Some s1"
    by (simp add: s1_def)
  have w: "w_active (worker_after (worker_msgs s1)) = [0]"
    by (simp add: s1 worker_after_def worker_onmessage_def new_worker_def)
  show ?thesis
    using pulse_after_stop [where s = s1 and now = 0 and t = "1 / 50" and es = "[Start 0]"
            and r = zero_stream]
          pulse_after_stop [where s = s1 and now = "1 / 20" and t = "1 / 50"] h p s1(3,4) r w
    unfolding s1_def [symmetric]
    by simp
qed

subsection \<open>Stop and start keep the song position\<close>

text \<open>
  Claim C10. \<open>stop\<close> changes nothing but \<open>isPlaying\<close> and the master-gain automation,
  and \<open>start\<close> nothing but \<open>isPlaying\<close>, \<open>nextNoteTime\<close> and the master-gain
  automation (each also posts its message to the timer worker, which arms or disarms
  the pulse source and is no part of the transport state); a \<open>stop\<close> followed by a
  \<open>start\<close> leaves \<open>tick\<close>, \<open>measure\<close>, \<open>currentTrack\<close>, \<open>bpm\<close> and \<open>noteLength\<close> as
  they were.
\<close>

theorem stop_start_preserves_position:
  "(\<exists>p m w. stop t1 s = s\<lparr>isPlaying := p, master_gain := m, worker_msgs := w\<rparr>) \<and>
   (\<exists>p n m w. start t2 s = s\<lparr>isPlaying := p, nextNoteTime := n, master_gain := m, worker_msgs := w\<rparr>) \<and>
   tick (start t2 (stop t1 s)) = tick s \<and> measure (start t2 (stop t1 s)) = measure s \<and>
   currentTrack (start t2 (stop t1 s)) = currentTrack s \<and> bpm (start t2 (stop t1 s)) = bpm s \<and>
   noteLength (start t2 (stop t1 s)) = noteLength s"
proof -
  have "\<exists>p m w. stop t1 s = s\<lparr>isPlaying := p, master_gain := m, worker_msgs := w\<rparr>"
  proof (cases "isPlaying s")
    case True
    then have "stop t1 s = s\<lparr>isPlaying := False, master_gain := master_gain s @
               [CancelScheduledValues t1, SetTargetAtTime 0 t1 0.1], worker_msgs := worker_msgs s @ [''stop'']\<rparr>"
      by (simp add: stop_def)
    then show ?thesis by blast
  next
    case False
    then have "stop t1 s = s\<lparr>isPlaying := isPlaying s, master_gain := master_gain s,
                 worker_msgs := worker_msgs s\<rparr>"
      by (simp add: stop_def)
    then show ?thesis by blast
  qed
  moreover have "\<exists>p n m w. start t2 s =
      s\<lparr>isPlaying := p, nextNoteTime := n, master_gain := m, worker_msgs := w\<rparr>"
  proof (cases "isPlaying s")
    case False
    then have "start t2 s = s\<lparr>isPlaying := True, nextNoteTime := t2 + 0.1,
       master_gain := master_gain s @
                 [CancelScheduledValues t2, SetValueAtTime 0 t2,
                  SetTargetAtTime (if currentTrack s = ''mainTheme'' then 0.2 else 0.15) t2 0.3],
               worker_msgs := worker_msgs s @ [''start'']\<rparr>"
      by (simp add: start_def Let_def)
    then show ?thesis by blast
  next
    case True
    then have "start t2 s = s\<lparr>isPlaying := isPlaying s, nextNoteTime := nextNoteTime s,
         master_gain := master_gain s, worker_msgs := worker_msgs s\<rparr>"
      by (simp add: start_def)
    then show ?thesis by blast
  qed
  moreover have "tick (start t2 (stop t1 s)) = tick s" "measure (start t2 (stop t1 s)) = measure s"
   "currentTrack (start t2 (stop t1 s)) = currentTrack s" "bpm (start t2 (stop t1 s)) = bpm s"
   "noteLength (start t2 (stop t1 s)) = noteLength s"
    by (simp_all add: start_def stop_def Let_def)
  ultimately show ?thesis by blast
qed

theorem stop_start_preserves_position_witness:
  "tick (start 3 (stop 2 ((schedule_body ^^ 5) (start 0 (new_engine zero_stream))))) = 5 \<and>
   measure (start 3 (stop 2 ((schedule_body ^^ 5) (start 0 (new_engine zero_stream))))) = 0 \<and>
   currentTrack (start 3 (stop 2 ((schedule_body ^^ 5) (start 0 (new_engine zero_stream)))))
     = ''ambient''"
proof -
  define s1 where "s1 = start 0 (new_engine zero_stream)"
  have s1: "tick s1 = 0" "measure s1 = 0" "currentTrack s1 = ''ambient''"
    by (simp_all add: s1_def start_def new_engine_def Let_def)
  have "tick s1 < 16" by (simp add: s1)
  from body_iter_tick [OF this, of 5] have "tick ((schedule_body ^^ 5) s1) = 5"
     "measure ((schedule_body ^^ 5) s1) = 0"
    by (simp_all add: s1)
  moreover have "currentTrack ((schedule_body ^^ 5) s1) = ''ambient''"
    by (simp only: body_iter_frame s1)
  ultimately show ?thesis
    using stop_start_preserves_position [of 2 "(schedule_body ^^ 5) s1" 3]
    unfolding s1_def [symmetric] by (simp only: simp_thms)
qed

end
